theory Spec2Isabelle
  imports Main "HOL-Library.Word" "HOL-Library.Multiset"
begin

unbundle bit_operations_syntax

section \<open>Fatal errors\<close>

text \<open>
  \<^verbatim>\<open>LOG(FATAL) << msg\<close> aborts the call with \<open>Fatal msg\<close>; a failed
  \<^verbatim>\<open>ICHECK(cond) << msg\<close> aborts it with \<open>Check_failed cond msg\<close> (the text of the
  condition, then the text streamed after it). A subscript outside a vector has no defined
  behaviour in the source; the model makes it the value \<open>Out_of_range\<close>. Reading through a
  null pointer has no defined behaviour either; the model makes it the value
  \<open>Null_dereference\<close>. A function that can abort returns \<open>error + 'a\<close>.
\<close>

datatype error =
    Fatal string
  | Check_failed string string
  | Out_of_range
  | Null_dereference

section \<open>Binary I/O primitives\<close>

type_synonym byte = "8 word"

text \<open>
  A stream is the unread remainder of a memory stream when reading, and the bytes
  appended so far when writing.
\<close>

type_synonym strm = "byte list"

text \<open>Little-endian layout of a fixed-width integer in memory.\<close>

fun le_bytes :: "nat \<Rightarrow> 'a::len word \<Rightarrow> byte list" where
  "le_bytes 0 w = []"
| "le_bytes (Suc n) w = ucast w # le_bytes n (drop_bit 8 w)"

fun le_word :: "byte list \<Rightarrow> 'a::len word" where
  "le_word [] = 0"
| "le_word (b # bs) = ucast b OR push_bit 8 (le_word bs)"

definition byte_of_char :: "char \<Rightarrow> byte" where
  "byte_of_char c = word_of_nat (of_char c)"

definition char_of_byte :: "byte \<Rightarrow> char" where
  "char_of_byte b = char_of (unat b)"

text \<open>
  Modelled from the spec: the stream class of the I/O library is not among the
  sources. Section 4.1: unsigned 8/32/64 integers are little-endian, strings and vectors
  are prefixed by a 64-bit length, every read yields a success flag.

  \<open>Stream_Read n old strm\<close> is the untyped \<^verbatim>\<open>Read(void* ptr, size_t size)\<close>:
  it copies as many bytes as are left (at most \<open>n\<close>) over the destination, whose
  previous content is \<open>old\<close>, and returns the destination, the number of bytes
  copied and the advanced stream.
\<close>

definition Stream_Read :: "nat \<Rightarrow> byte list \<Rightarrow> strm \<Rightarrow> byte list \<times> nat \<times> strm" where
  "Stream_Read n old strm =
     (let got = take n strm
      in (got @ drop (length got) old, length got, drop n strm))"

text \<open>
  The typed \<^verbatim>\<open>Read(T* out)\<close> for a plain integer is the untyped read of
  \<^verbatim>\<open>sizeof(T)\<close> bytes; the flag says whether all of them arrived.
\<close>

definition Read_u64 :: "64 word \<Rightarrow> strm \<Rightarrow> bool \<times> 64 word \<times> strm" where
  "Read_u64 old strm =
     (case Stream_Read 8 (le_bytes 8 old) strm of
        (buf, n, strm') \<Rightarrow> (n = 8, le_word buf, strm'))"

definition Read_i32 :: "32 word \<Rightarrow> strm \<Rightarrow> bool \<times> 32 word \<times> strm" where
  "Read_i32 old strm =
     (case Stream_Read 4 (le_bytes 4 old) strm of
        (buf, n, strm') \<Rightarrow> (n = 4, le_word buf, strm'))"

definition Read_char :: "byte \<Rightarrow> strm \<Rightarrow> bool \<times> byte \<times> strm" where
  "Read_char old strm =
     (case Stream_Read 1 [old] strm of
        (buf, n, strm') \<Rightarrow> (n = 1, (case buf of [] \<Rightarrow> old | b # _ \<Rightarrow> b), strm'))"

definition Write_u64 :: "64 word \<Rightarrow> byte list" where
  "Write_u64 w = le_bytes 8 w"

definition Write_i32 :: "32 word \<Rightarrow> byte list" where
  "Write_i32 w = le_bytes 4 w"

text \<open>A read whose flag is tested by the caller before the value is used.\<close>

definition Read_u64_ok :: "strm \<Rightarrow> (64 word \<times> strm) option" where
  "Read_u64_ok strm =
     (case Read_u64 0 strm of (ok, v, strm') \<Rightarrow> if ok then Some (v, strm') else None)"

definition Read_i32_ok :: "strm \<Rightarrow> (32 word \<times> strm) option" where
  "Read_i32_ok strm =
     (case Read_i32 0 strm of (ok, v, strm') \<Rightarrow> if ok then Some (v, strm') else None)"

text \<open>
  A string is its length as a 64-bit integer, then its bytes. The read resizes the
  destination to the announced length (new bytes are zero) before it copies, so after a
  short read the destination holds what arrived, padded with zeros.
\<close>

definition Write_bytes :: "byte list \<Rightarrow> byte list" where
  "Write_bytes bs = Write_u64 (word_of_nat (length bs)) @ bs"

definition Read_bytes :: "byte list \<Rightarrow> strm \<Rightarrow> bool \<times> byte list \<times> strm" where
  "Read_bytes old strm =
     (case Read_u64 0 strm of
        (ok, sz, strm') \<Rightarrow>
          if \<not> ok then (False, old, strm')
          else if sz = 0 then (True, [], strm')
          else (case Stream_Read (unat sz) (replicate (unat sz) 0) strm' of
                  (buf, n, strm'') \<Rightarrow> (n = unat sz, buf, strm'')))"

definition Write_string :: "string \<Rightarrow> byte list" where
  "Write_string s = Write_bytes (map byte_of_char s)"

definition Read_string :: "strm \<Rightarrow> (string \<times> strm) option" where
  "Read_string strm =
     (case Read_bytes [] strm of
        (ok, bs, strm') \<Rightarrow> if ok then Some (map char_of_byte bs, strm') else None)"

text \<open>
  A vector is its length as a 64-bit integer, then its elements; the read of a vector
  fails as soon as the read of an element fails.
\<close>

fun Read_items :: "(strm \<Rightarrow> ('a \<times> strm) option) \<Rightarrow> nat \<Rightarrow> strm \<Rightarrow> ('a list \<times> strm) option" where
  "Read_items rd 0 strm = Some ([], strm)"
| "Read_items rd (Suc n) strm =
     (case rd strm of
        None \<Rightarrow> None
      | Some (x, strm') \<Rightarrow>
          (case Read_items rd n strm' of
             None \<Rightarrow> None
           | Some (xs, strm'') \<Rightarrow> Some (x # xs, strm'')))"

definition Write_vector :: "('a \<Rightarrow> byte list) \<Rightarrow> 'a list \<Rightarrow> byte list" where
  "Write_vector wr xs = Write_u64 (word_of_nat (length xs)) @ concat (map wr xs)"

definition Read_vector :: "(strm \<Rightarrow> ('a \<times> strm) option) \<Rightarrow> strm \<Rightarrow> ('a list \<times> strm) option" where
  "Read_vector rd strm =
     (case Read_u64_ok strm of
        None \<Rightarrow> None
      | Some (sz, strm') \<Rightarrow> Read_items rd (unat sz) strm')"

section \<open>The VM executable\<close>

record DLDataType =
  code :: "8 word"
  bits :: "8 word"
  lanes :: "16 word"

text \<open>
  A constant of the pool. The tensor type \<open>'nd\<close> and its serializer are external;
  a float is its 64 bits.
\<close>

datatype 'nd pool_constant =
    NDArray 'nd
  | Shape "64 word list"
  | String string
  | Int64 "64 word"
  | Float64 "64 word"
  | DataType DLDataType

text \<open>
  \<^verbatim>\<open>VMFuncInfo\<close>. The kind is kept as the 32-bit integer the enumeration is cast from
  and to, since \<^verbatim>\<open>Load\<close> casts whatever integer it reads.
\<close>

record VMFuncInfo =
  kind :: "32 word"
  name :: string
  start_instr :: "64 word"
  end_instr :: "64 word"
  num_args :: "64 word"
  register_file_size :: "64 word"
  param_names :: "string list"

text \<open>
  Modelled from the spec: the enumeration \<^verbatim>\<open>VMFuncInfo::FuncKind\<close> is declared in a
  header that is not among the sources; section 3 names its three members.
\<close>

definition kPackedFunc :: "32 word" where "kPackedFunc = 0"
definition kVMFunc :: "32 word" where "kVMFunc = 1"
definition kVMTIRFunc :: "32 word" where "kVMTIRFunc = 2"

record 'nd VMExecutable =
  constants :: "'nd pool_constant list"
  func_table :: "VMFuncInfo list"
  func_map :: "string \<rightharpoonup> nat"
  instr_offset :: "64 word list"
  instr_data :: "64 word list"

text \<open>
  The type tags of the constant pool are constants of the FFI layer, which is not among
  the sources: they are a parameter of the codec.
\<close>

record TypeIndex =
  kTVMFFINDArray :: "32 word"
  kTVMFFIShape :: "32 word"
  kTVMFFIStr :: "32 word"
  kTVMFFIInt :: "32 word"
  kTVMFFIFloat :: "32 word"
  kTVMFFIDataType :: "32 word"
  TypeIndexToTypeKey :: "32 word \<Rightarrow> string"

text \<open>
  The tensor serializer (\<^verbatim>\<open>SaveDLTensor\<close>, \<^verbatim>\<open>NDArray::Load\<close>) is external as well: a
  pair of functions, the reader aborting or returning the tensor and the rest of the
  stream.
\<close>

record 'nd tensor_codec =
  SaveDLTensor :: "'nd \<Rightarrow> byte list"
  NDArray_Load :: "strm \<Rightarrow> error + ('nd \<times> strm)"

subsection \<open>Header\<close>

definition kTVMVMBytecodeMagic :: "64 word" where
  "kTVMVMBytecodeMagic = 0xD225DE2F4214151D"

text \<open>
  The macro \<open>STREAM_CHECK(val, section)\<close>, for a condition that is false. The text of the
  failed condition is the expression written at the place of use.
\<close>

definition STREAM_CHECK :: "string \<Rightarrow> string \<Rightarrow> error" where
  "STREAM_CHECK val section =
     Check_failed val (''Invalid VM file format in the '' @ section @ '' section.'' @ [CHR 0x0A])"

text \<open>\<open>VM_VERSION\<close> is a macro of a header that is not among the sources: a parameter.\<close>

definition SaveHeader :: "string \<Rightarrow> byte list" where
  "SaveHeader VM_VERSION = Write_u64 kTVMVMBytecodeMagic @ Write_string VM_VERSION"

definition LoadHeader :: "string \<Rightarrow> strm \<Rightarrow> error + strm" where
  "LoadHeader VM_VERSION strm =
     (case Read_u64_ok strm of
        None \<Rightarrow> Inl (STREAM_CHECK ''strm->Read(&header)'' ''header'')
      | Some (header, strm1) \<Rightarrow>
          if header \<noteq> kTVMVMBytecodeMagic then Inl (STREAM_CHECK ''header == kTVMVMBytecodeMagic'' ''header'')
          else (case Read_string strm1 of
                  None \<Rightarrow> Inl (STREAM_CHECK ''strm->Read(&version)'' ''version'')
                | Some (version, strm2) \<Rightarrow>
                    if version \<noteq> VM_VERSION then Inl (STREAM_CHECK ''version == VM_VERSION'' ''version'')
                    else Inr strm2))"

subsection \<open>Global section\<close>

definition VMFuncInfo_Save :: "VMFuncInfo \<Rightarrow> byte list" where
  "VMFuncInfo_Save f =
     Write_i32 (kind f) @ Write_string (name f) @ Write_u64 (start_instr f)
     @ Write_u64 (end_instr f) @ Write_u64 (num_args f)
     @ Write_u64 (register_file_size f) @ Write_vector Write_string (param_names f)"

definition VMFuncInfo_Load :: "strm \<Rightarrow> (VMFuncInfo \<times> strm) option" where
  "VMFuncInfo_Load strm =
     (case Read_i32_ok strm of None \<Rightarrow> None | Some (temp_kind, s1) \<Rightarrow>
      case Read_string s1 of None \<Rightarrow> None | Some (nm, s2) \<Rightarrow>
      case Read_u64_ok s2 of None \<Rightarrow> None | Some (st, s3) \<Rightarrow>
      case Read_u64_ok s3 of None \<Rightarrow> None | Some (en, s4) \<Rightarrow>
      case Read_u64_ok s4 of None \<Rightarrow> None | Some (na, s5) \<Rightarrow>
      case Read_u64_ok s5 of None \<Rightarrow> None | Some (rf, s6) \<Rightarrow>
      case Read_vector Read_string s6 of None \<Rightarrow> None | Some (pn, s7) \<Rightarrow>
        Some (\<lparr>kind = temp_kind, name = nm, start_instr = st, end_instr = en,
               num_args = na, register_file_size = rf, param_names = pn\<rparr>, s7))"

definition SaveGlobalSection :: "'nd VMExecutable \<Rightarrow> byte list" where
  "SaveGlobalSection exec = Write_vector VMFuncInfo_Save (func_table exec)"

text \<open>The loop of \<^verbatim>\<open>LoadGlobalSection\<close> that sets up the function map.\<close>

fun setup_func_map :: "VMFuncInfo list \<Rightarrow> nat \<Rightarrow> (string \<rightharpoonup> nat) \<Rightarrow> (string \<rightharpoonup> nat)" where
  "setup_func_map [] i m = m"
| "setup_func_map (f # fs) i m = setup_func_map fs (Suc i) (m(name f \<mapsto> i))"

definition LoadGlobalSection :: "'nd VMExecutable \<Rightarrow> strm \<Rightarrow> error + ('nd VMExecutable \<times> strm)" where
  "LoadGlobalSection exec strm =
     (case Read_vector VMFuncInfo_Load strm of
        None \<Rightarrow> Inl (STREAM_CHECK ''strm->Read(&func_table)'' ''Global Section'')
      | Some (ft, strm') \<Rightarrow>
          Inr (exec\<lparr>func_table := ft, func_map := setup_func_map ft 0 (func_map exec)\<rparr>, strm'))"

subsection \<open>Constant section\<close>

definition Write_DLDataType :: "DLDataType \<Rightarrow> byte list" where
  "Write_DLDataType dt = [code dt, bits dt] @ le_bytes 2 (lanes dt)"

text \<open>
  The data type is read field by field into the destination; a field that does not
  arrive stops the read and leaves the remaining fields as they were.
\<close>

definition Read_DLDataType :: "DLDataType \<Rightarrow> strm \<Rightarrow> bool \<times> DLDataType \<times> strm" where
  "Read_DLDataType old strm =
     (case Read_char (code old) strm of
        (ok1, c, s1) \<Rightarrow>
          if \<not> ok1 then (False, old\<lparr>code := c\<rparr>, s1)
          else (case Read_char (bits old) s1 of
            (ok2, b, s2) \<Rightarrow>
              if \<not> ok2 then (False, old\<lparr>code := c, bits := b\<rparr>, s2)
              else (case Stream_Read 2 (le_bytes 2 (lanes old)) s2 of
                (buf, n, s3) \<Rightarrow> (n = 2, \<lparr>code = c, bits = b, lanes = le_word buf\<rparr>, s3))))"

fun SaveConstant :: "TypeIndex \<Rightarrow> 'nd tensor_codec \<Rightarrow> 'nd pool_constant \<Rightarrow> byte list" where
  "SaveConstant ti codec (NDArray nd) =
     Write_i32 (kTVMFFINDArray ti) @ SaveDLTensor codec nd"
| "SaveConstant ti codec (Shape shape) =
     Write_i32 (kTVMFFIShape ti) @ Write_u64 (word_of_nat (length shape))
     @ concat (map Write_u64 shape)"
| "SaveConstant ti codec (String str) =
     Write_i32 (kTVMFFIStr ti) @ Write_u64 (word_of_nat (length str))
     @ map byte_of_char str"
| "SaveConstant ti codec (Int64 v) = Write_i32 (kTVMFFIInt ti) @ Write_u64 v"
| "SaveConstant ti codec (Float64 v) = Write_i32 (kTVMFFIFloat ti) @ Write_u64 v"
| "SaveConstant ti codec (DataType dt) =
     Write_i32 (kTVMFFIDataType ti) @ Write_DLDataType dt"

definition SaveConstantSection :: "TypeIndex \<Rightarrow> 'nd tensor_codec \<Rightarrow> 'nd VMExecutable \<Rightarrow> byte list" where
  "SaveConstantSection ti codec exec =
     Write_u64 (word_of_nat (length (constants exec)))
     @ concat (map (SaveConstant ti codec) (constants exec))"

text \<open>
  The locals of \<^verbatim>\<open>LoadConstantSection\<close> that are declared without an initializer hold
  indeterminate values until a read fills them: \<open>sz\<close> and \<open>dtype\<close> once per call,
  \<open>constant_type\<close>, \<open>size\<close> and \<open>value\<close> once per iteration of the loop. They
  are a parameter of the loader.
\<close>

record iter_uninit =
  u_constant_type :: "32 word"
  u_size :: "64 word"
  u_value :: "64 word"

record uninit =
  u_sz :: "64 word"
  u_dtype :: DLDataType
  u_iter :: "nat \<Rightarrow> iter_uninit"

text \<open>
  The element loops of the shape and string payloads: the vector is created with
  \<open>n\<close> zero elements and each element is read without testing the flag.
\<close>

fun Read_shape_data :: "nat \<Rightarrow> strm \<Rightarrow> 64 word list \<times> strm" where
  "Read_shape_data 0 strm = ([], strm)"
| "Read_shape_data (Suc n) strm =
     (case Read_u64 0 strm of
        (ok, v, strm') \<Rightarrow>
          (case Read_shape_data n strm' of (vs, strm'') \<Rightarrow> (v # vs, strm'')))"

fun Read_str_data :: "nat \<Rightarrow> strm \<Rightarrow> byte list \<times> strm" where
  "Read_str_data 0 strm = ([], strm)"
| "Read_str_data (Suc n) strm =
     (case Read_char 0 strm of
        (ok, v, strm') \<Rightarrow>
          (case Read_str_data n strm' of (vs, strm'') \<Rightarrow> (v # vs, strm'')))"

text \<open>
  The loop over the constants: \<open>n\<close> iterations remain, \<open>i\<close> is the loop counter,
  \<open>dtype\<close> the local that survives from one iteration to the next. Only the read of
  the tag is tested, and it is tested for having copied at least one byte (the untyped
  read returns the number of bytes).
\<close>

fun LoadConstants ::
  "TypeIndex \<Rightarrow> 'nd tensor_codec \<Rightarrow> (nat \<Rightarrow> iter_uninit) \<Rightarrow> nat \<Rightarrow> nat \<Rightarrow> DLDataType \<Rightarrow> strm
     \<Rightarrow> 'nd pool_constant list \<Rightarrow> error + ('nd pool_constant list \<times> strm)" where
  "LoadConstants ti codec u 0 i dtype strm cs = Inr (cs, strm)"
| "LoadConstants ti codec u (Suc n) i dtype strm cs =
     (case Stream_Read 4 (le_bytes 4 (u_constant_type (u i))) strm of
        (buf, got, s1) \<Rightarrow>
          if got = 0 then Inl (STREAM_CHECK ''strm->Read(&sz, sizeof(sz))'' ''constant'')
          else
            let constant_type = (le_word buf :: 32 word) in
            if constant_type = kTVMFFINDArray ti then
              (case NDArray_Load codec s1 of
                 Inl e \<Rightarrow> Inl e
               | Inr (nd, s2) \<Rightarrow> LoadConstants ti codec u n (Suc i) dtype s2 (cs @ [NDArray nd]))
            else if constant_type = kTVMFFIShape ti then
              (case Read_u64 (u_size (u i)) s1 of
                 (ok, sz, s2) \<Rightarrow>
                   (case Read_shape_data (unat sz) s2 of
                      (data, s3) \<Rightarrow> LoadConstants ti codec u n (Suc i) dtype s3 (cs @ [Shape data])))
            else if constant_type = kTVMFFIDataType ti then
              (case Read_DLDataType dtype s1 of
                 (ok, dtype', s2) \<Rightarrow>
                   LoadConstants ti codec u n (Suc i) dtype' s2 (cs @ [DataType dtype']))
            else if constant_type = kTVMFFIStr ti then
              (case Read_u64 (u_size (u i)) s1 of
                 (ok, sz, s2) \<Rightarrow>
                   (case Read_str_data (unat sz) s2 of
                      (data, s3) \<Rightarrow>
                        LoadConstants ti codec u n (Suc i) dtype s3
                          (cs @ [String (map char_of_byte data)])))
            else if constant_type = kTVMFFIInt ti then
              (case Read_u64 (u_value (u i)) s1 of
                 (ok, v, s2) \<Rightarrow> LoadConstants ti codec u n (Suc i) dtype s2 (cs @ [Int64 v]))
            else if constant_type = kTVMFFIFloat ti then
              (case Read_u64 (u_value (u i)) s1 of
                 (ok, v, s2) \<Rightarrow> LoadConstants ti codec u n (Suc i) dtype s2 (cs @ [Float64 v]))
            else
              Inl (Fatal (''Constant pool can only contain NDArray and DLDataType, but got ''
                          @ TypeIndexToTypeKey ti constant_type
                          @ '' when loading the VM constant pool.'')))"

definition LoadConstantSection ::
  "TypeIndex \<Rightarrow> 'nd tensor_codec \<Rightarrow> uninit \<Rightarrow> 'nd VMExecutable \<Rightarrow> strm
     \<Rightarrow> error + ('nd VMExecutable \<times> strm)" where
  "LoadConstantSection ti codec u exec strm =
     (case Stream_Read 8 (le_bytes 8 (u_sz u)) strm of
        (buf, got, s1) \<Rightarrow>
          if got = 0 then Inl (STREAM_CHECK ''strm->Read(&constant_type, sizeof(constant_type))'' ''constant'')
          else (case LoadConstants ti codec (u_iter u) (unat (le_word buf :: 64 word)) 0
                       (u_dtype u) s1 (constants exec) of
                  Inl e \<Rightarrow> Inl e
                | Inr (cs, s2) \<Rightarrow> Inr (exec\<lparr>constants := cs\<rparr>, s2)))"

subsection \<open>Code section\<close>

definition SaveCodeSection :: "'nd VMExecutable \<Rightarrow> byte list" where
  "SaveCodeSection exec =
     Write_vector Write_u64 (instr_offset exec) @ Write_vector Write_u64 (instr_data exec)"

definition LoadCodeSection :: "'nd VMExecutable \<Rightarrow> strm \<Rightarrow> error + ('nd VMExecutable \<times> strm)" where
  "LoadCodeSection exec strm =
     (case Read_vector Read_u64_ok strm of
        None \<Rightarrow> Inl (STREAM_CHECK ''strm->Read(&(this->instr_offset))'' ''instr offset'')
      | Some (offs, s1) \<Rightarrow>
          (case Read_vector Read_u64_ok s1 of
             None \<Rightarrow> Inl (STREAM_CHECK ''strm->Read(&(this->instr_data))'' ''instr data'')
           | Some (dat, s2) \<Rightarrow> Inr (exec\<lparr>instr_offset := offs, instr_data := dat\<rparr>, s2)))"

subsection \<open>Save and load\<close>

definition SaveToBinary :: "TypeIndex \<Rightarrow> 'nd tensor_codec \<Rightarrow> string \<Rightarrow> 'nd VMExecutable \<Rightarrow> byte list" where
  "SaveToBinary ti codec VM_VERSION exec =
     Write_bytes (SaveHeader VM_VERSION @ SaveGlobalSection exec
                  @ SaveConstantSection ti codec exec @ SaveCodeSection exec)"

text \<open>The freshly made executable that the loader fills.\<close>

definition new_VMExecutable :: "'nd VMExecutable" where
  "new_VMExecutable =
     \<lparr>constants = [], func_table = [], func_map = Map.empty, instr_offset = [], instr_data = []\<rparr>"

text \<open>The read of the outer string is not tested.\<close>

definition LoadFromBinary ::
  "TypeIndex \<Rightarrow> 'nd tensor_codec \<Rightarrow> string \<Rightarrow> uninit \<Rightarrow> strm \<Rightarrow> error + 'nd VMExecutable" where
  "LoadFromBinary ti codec VM_VERSION u stream =
     (case Read_bytes [] stream of
        (ok, bcode, rest) \<Rightarrow>
          (case LoadHeader VM_VERSION bcode of
             Inl e \<Rightarrow> Inl e
           | Inr s1 \<Rightarrow>
               (case LoadGlobalSection new_VMExecutable s1 of
                  Inl e \<Rightarrow> Inl e
                | Inr (exec1, s2) \<Rightarrow>
                    (case LoadConstantSection ti codec u exec1 s2 of
                       Inl e \<Rightarrow> Inl e
                     | Inr (exec2, s3) \<Rightarrow>
                         (case LoadCodeSection exec2 s3 of
                            Inl e \<Rightarrow> Inl e
                          | Inr (exec3, s4) \<Rightarrow> Inr exec3)))))"

subsection \<open>Well-formed executables\<close>

definition wf_FuncInfo :: "VMFuncInfo \<Rightarrow> bool" where
  "wf_FuncInfo f \<longleftrightarrow>
     length (name f) < 2 ^ 64 \<and> length (param_names f) < 2 ^ 64
     \<and> (\<forall>p \<in> set (param_names f). length p < 2 ^ 64)"

fun wf_constant :: "'nd pool_constant \<Rightarrow> bool" where
  "wf_constant (Shape shape) = (length shape < 2 ^ 64)"
| "wf_constant (String str) = (length str < 2 ^ 64)"
| "wf_constant _ = True"

definition tensor_ok :: "'nd tensor_codec \<Rightarrow> 'nd pool_constant \<Rightarrow> bool" where
  "tensor_ok codec c \<longleftrightarrow>
     (\<forall>nd rest. c = NDArray nd \<longrightarrow> NDArray_Load codec (SaveDLTensor codec nd @ rest) = Inr (nd, rest))"

definition tensor_roundtrip :: "'nd tensor_codec \<Rightarrow> 'nd VMExecutable \<Rightarrow> bool" where
  "tensor_roundtrip codec E \<longleftrightarrow> (\<forall>c \<in> set (constants E). tensor_ok codec c)"

definition distinct_tags :: "TypeIndex \<Rightarrow> bool" where
  "distinct_tags ti \<longleftrightarrow>
     distinct [kTVMFFINDArray ti, kTVMFFIShape ti, kTVMFFIDataType ti,
               kTVMFFIStr ti, kTVMFFIInt ti, kTVMFFIFloat ti]"

definition func_map_of :: "VMFuncInfo list \<Rightarrow> (string \<rightharpoonup> nat)" where
  "func_map_of ft = map_of (zip (map name ft) [0..<length ft])"

definition blob_size :: "TypeIndex \<Rightarrow> 'nd tensor_codec \<Rightarrow> string \<Rightarrow> 'nd VMExecutable \<Rightarrow> nat" where
  "blob_size ti codec VM_VERSION E =
     length (SaveHeader VM_VERSION @ SaveGlobalSection E
             @ SaveConstantSection ti codec E @ SaveCodeSection E)"

definition well_formed :: "'nd VMExecutable \<Rightarrow> bool" where
  "well_formed E \<longleftrightarrow>
     length (func_table E) < 2 ^ 64 \<and> (\<forall>f \<in> set (func_table E). wf_FuncInfo f)
     \<and> distinct (map name (func_table E)) \<and> func_map E = func_map_of (func_table E)
     \<and> length (constants E) < 2 ^ 64 \<and> (\<forall>c \<in> set (constants E). wf_constant c)
     \<and> length (instr_offset E) < 2 ^ 64 \<and> length (instr_data E) < 2 ^ 64"

definition spec_TypeIndex :: TypeIndex where
  "spec_TypeIndex =
     \<lparr>kTVMFFINDArray = 0, kTVMFFIShape = 1, kTVMFFIStr = 2, kTVMFFIInt = 3,
      kTVMFFIFloat = 4, kTVMFFIDataType = 5, TypeIndexToTypeKey = (\<lambda>_. ''unknown'')\<rparr>"

definition byte_codec :: "byte tensor_codec" where
  "byte_codec =
     \<lparr>SaveDLTensor = (\<lambda>b. [b]),
      NDArray_Load = (\<lambda>strm. case strm of
                         [] \<Rightarrow> Inl (Fatal ''Invalid DLTensor file format'')
                       | b # rest \<Rightarrow> Inr (b, rest))\<rparr>"

definition zero_uninit :: uninit where
  "zero_uninit =
     \<lparr>u_sz = 0, u_dtype = \<lparr>code = 0, bits = 0, lanes = 0\<rparr>,
      u_iter = (\<lambda>_. \<lparr>u_constant_type = 0, u_size = 0, u_value = 0\<rparr>)\<rparr>"

definition S2_exec :: "byte VMExecutable" where
  "S2_exec =
     \<lparr>constants = [Int64 7, String ''abc'', Shape [2, 3],
                   DataType \<lparr>code = 2, bits = 32, lanes = 1\<rparr>, Float64 0, NDArray 9],
      func_table = [\<lparr>kind = kVMFunc, name = ''main'', start_instr = 0, end_instr = 1,
                     num_args = 1, register_file_size = 2, param_names = [''x'']\<rparr>,
                    \<lparr>kind = kPackedFunc, name = ''f'', start_instr = 0, end_instr = 0,
                     num_args = 0, register_file_size = 0, param_names = []\<rparr>],
      func_map = [''main'' \<mapsto> 0, ''f'' \<mapsto> 1],
      instr_offset = [0], instr_data = [2, 0]\<rparr>"

section \<open>Instructions\<close>

text \<open>
  Modelled from the spec: the bytecode header (opcodes, argument kinds, the layout of an
  argument word and the two special registers) is not among the sources. Section 3
  gives the opcodes Call, Ret, Goto, If, the argument kinds Register, Immediate,
  ConstIdx, FuncIdx, one word per argument holding kind and value, and the sentinels
  \<open>kVoidRegister\<close> and \<open>kVMRegister\<close>. The numbers below are those of the header:
  the kind is the top byte of the word, the value its low 56 bits read as a signed number.
\<close>

type_synonym ExecWord = "64 word"
type_synonym Index = "64 word"
type_synonym RegName = "64 word"

datatype ArgKind = kRegister | kImmediate | kConstIdx | kFuncIdx | kOtherKind "8 word"

definition Arg_kind :: "ExecWord \<Rightarrow> ArgKind" where
  "Arg_kind dat =
     (let k = (ucast (drop_bit 56 dat AND 0xFF) :: 8 word)
      in if k = 0 then kRegister else if k = 1 then kImmediate
         else if k = 2 then kConstIdx else if k = 3 then kFuncIdx else kOtherKind k)"

definition kValueMask :: ExecWord where
  "kValueMask = push_bit 56 1 - 1"

definition Arg_value :: "ExecWord \<Rightarrow> ExecWord" where
  "Arg_value dat = signed_drop_bit 8 (push_bit 8 (dat AND kValueMask))"

definition Arg :: "8 word \<Rightarrow> Index \<Rightarrow> ExecWord" where
  "Arg k v = push_bit 56 (ucast k) OR (v AND kValueMask)"

definition kBeginSpecialReg :: RegName where
  "kBeginSpecialReg = push_bit 54 1"

definition kVoidRegister :: RegName where
  "kVoidRegister = kBeginSpecialReg + 0"

definition kVMRegister :: RegName where
  "kVMRegister = kBeginSpecialReg + 1"

text \<open>
  A decoded instruction. The arguments of a call stay in the instruction buffer: the
  instruction holds the position of the first one.
\<close>

datatype Instruction =
    Call RegName Index Index Index
  | Ret RegName
  | Goto Index
  | If_instr RegName Index

text \<open>A vector subscript; the signed index is converted to an unsigned one.\<close>

definition at_index :: "'a list \<Rightarrow> Index \<Rightarrow> error + 'a" where
  "at_index xs i = (if unat i < length xs then Inr (xs ! unat i) else Inl Out_of_range)"

section \<open>Printing\<close>

definition digit_char :: "nat \<Rightarrow> char" where
  "digit_char d = char_of (of_char CHR ''0'' + d)"

fun string_of_nat :: "nat \<Rightarrow> string" where
  "string_of_nat n =
     (if 10 \<le> n then string_of_nat (n div 10) @ [digit_char (n mod 10)] else [digit_char n])"

declare string_of_nat.simps [simp del]

text \<open>\<^verbatim>\<open>std::to_string\<close> and \<^verbatim>\<open>operator<<\<close> of a signed 64-bit integer.\<close>

definition to_string :: "64 word \<Rightarrow> string" where
  "to_string w =
     (if sint w < 0 then ''-'' @ string_of_nat (nat (- sint w)) else string_of_nat (nat (sint w)))"

definition newline :: string where
  "newline = [CHR 0x0A]"

text \<open>\<^verbatim>\<open>std::setw(n) << std::left << s\<close>: the next item, padded with blanks on the right.\<close>

definition setw_left :: "nat \<Rightarrow> string \<Rightarrow> string" where
  "setw_left n s = s @ replicate (n - length s) CHR '' ''"

definition RegNameToStr :: "RegName \<Rightarrow> string" where
  "RegNameToStr reg =
     (if reg = kVoidRegister then ''%void''
      else if reg = kVMRegister then ''%vm''
      else ''%'' @ to_string reg)"

section \<open>Decoding and disassembly\<close>

definition GetInstruction :: "'nd VMExecutable \<Rightarrow> Index \<Rightarrow> error + Instruction" where
  "GetInstruction exec i =
     (case at_index (instr_offset exec) i of Inl e \<Rightarrow> Inl e | Inr offset \<Rightarrow>
      case at_index (instr_data exec) offset of Inl e \<Rightarrow> Inl e | Inr w \<Rightarrow>
        let op = (ucast w :: 32 word) in
        if op = 1 then
          (case at_index (instr_data exec) (offset + 1) of Inl e \<Rightarrow> Inl e | Inr dst \<Rightarrow>
           case at_index (instr_data exec) (offset + 2) of Inl e \<Rightarrow> Inl e | Inr func_idx \<Rightarrow>
           case at_index (instr_data exec) (offset + 3) of Inl e \<Rightarrow> Inl e | Inr n_args \<Rightarrow>
             Inr (Call dst func_idx n_args (offset + 4)))
        else if op = 2 then
          (case at_index (instr_data exec) (offset + 1) of Inl e \<Rightarrow> Inl e | Inr result \<Rightarrow>
             Inr (Ret result))
        else if op = 3 then
          (case at_index (instr_data exec) (offset + 1) of Inl e \<Rightarrow> Inl e | Inr pc_offset \<Rightarrow>
             Inr (Goto pc_offset))
        else if op = 4 then
          (case at_index (instr_data exec) (offset + 1) of Inl e \<Rightarrow> Inl e | Inr cond \<Rightarrow>
           case at_index (instr_data exec) (offset + 2) of Inl e \<Rightarrow> Inl e | Inr false_offset \<Rightarrow>
             Inr (If_instr cond false_offset))
        else Inl (Fatal (''should never hit this case: '' @ to_string (scast op))))"

text \<open>
  \<^verbatim>\<open>StrJoin(items, offset, cnt, delim, repr)\<close> over the argument words at \<open>args\<close> in
  the instruction buffer. The count is narrowed to a 32-bit \<^verbatim>\<open>int\<close>; a count that is
  not zero prints the first item, then the items \<open>1 .. cnt - 1\<close>.
\<close>

fun StrJoin_rest ::
  "ExecWord list \<Rightarrow> Index \<Rightarrow> string \<Rightarrow> (ExecWord \<Rightarrow> error + string) \<Rightarrow> nat \<Rightarrow> nat \<Rightarrow> error + string" where
  "StrJoin_rest items args delim repr 0 i = Inr []"
| "StrJoin_rest items args delim repr (Suc n) i =
     (case at_index items (args + word_of_nat i) of Inl e \<Rightarrow> Inl e | Inr a \<Rightarrow>
      case repr a of Inl e \<Rightarrow> Inl e | Inr s \<Rightarrow>
      case StrJoin_rest items args delim repr n (Suc i) of Inl e \<Rightarrow> Inl e | Inr r \<Rightarrow>
        Inr (delim @ s @ r))"

definition StrJoin ::
  "ExecWord list \<Rightarrow> Index \<Rightarrow> Index \<Rightarrow> string \<Rightarrow> (ExecWord \<Rightarrow> error + string) \<Rightarrow> error + string" where
  "StrJoin items args n_args delim repr =
     (let cnt = sint (ucast n_args :: 32 word) in
      if cnt = 0 then Inr []
      else
        (case at_index items args of Inl e \<Rightarrow> Inl e | Inr a \<Rightarrow>
         case repr a of Inl e \<Rightarrow> Inl e | Inr s \<Rightarrow>
         case StrJoin_rest items args delim repr (nat (cnt - 1)) 1 of Inl e \<Rightarrow> Inl e | Inr r \<Rightarrow>
           Inr (s @ r)))"

subsection \<open>Text format\<close>

definition get_func_name :: "'nd VMExecutable \<Rightarrow> Index \<Rightarrow> string" where
  "get_func_name exec index =
     (if unat index < length (func_table exec) then name (func_table exec ! unat index)
      else ''unknown_func_index('' @ to_string index @ '')'')"

definition instr_to_str :: "'nd VMExecutable \<Rightarrow> ExecWord \<Rightarrow> error + string" where
  "instr_to_str exec arg =
     (case Arg_kind arg of
        kRegister \<Rightarrow> Inr (RegNameToStr (Arg_value arg))
      | kImmediate \<Rightarrow> Inr (''i'' @ to_string (Arg_value arg))
      | kConstIdx \<Rightarrow> Inr (''c['' @ to_string (Arg_value arg) @ '']'')
      | kFuncIdx \<Rightarrow> Inr (''f['' @ get_func_name exec (Arg_value arg) @ '']'')
      | kOtherKind k \<Rightarrow> Inl (Fatal (''Wrong instruction kind: '' @ to_string (ucast k))))"

definition AsText_instr :: "'nd VMExecutable \<Rightarrow> Instruction \<Rightarrow> error + string" where
  "AsText_instr exec instr =
     (case instr of
        Call dst func_idx n_args args \<Rightarrow>
          (case StrJoin (instr_data exec) args n_args '', '' (instr_to_str exec) of
             Inl e \<Rightarrow> Inl e
           | Inr joined \<Rightarrow>
               Inr (setw_left 6 ''call'' @ setw_left 16 (get_func_name exec func_idx) @ '' in: ''
                    @ setw_left 12 joined @ '' dst: '' @ RegNameToStr dst @ newline))
      | Ret result \<Rightarrow> Inr (setw_left 6 ''ret '' @ RegNameToStr result @ newline)
      | Goto pc_offset \<Rightarrow> Inr (setw_left 6 ''goto'' @ to_string pc_offset @ newline)
      | If_instr cond false_offset \<Rightarrow>
          Inr (setw_left 6 ''If'' @ RegNameToStr cond @ '', '' @ to_string false_offset @ newline))"

text \<open>The loop over the instructions \<open>idx, idx + 1, ...\<close> of a function, \<open>n\<close> of them.\<close>

fun AsText_instrs :: "'nd VMExecutable \<Rightarrow> nat \<Rightarrow> nat \<Rightarrow> error + string" where
  "AsText_instrs exec 0 idx = Inr []"
| "AsText_instrs exec (Suc n) idx =
     (case GetInstruction exec (word_of_nat idx) of Inl e \<Rightarrow> Inl e | Inr instr \<Rightarrow>
      case AsText_instr exec instr of Inl e \<Rightarrow> Inl e | Inr s \<Rightarrow>
      case AsText_instrs exec n (Suc idx) of Inl e \<Rightarrow> Inl e | Inr r \<Rightarrow>
        Inr (''  '' @ s @ r))"

fun AsText_funcs :: "'nd VMExecutable \<Rightarrow> VMFuncInfo list \<Rightarrow> error + string" where
  "AsText_funcs exec [] = Inr []"
| "AsText_funcs exec (gfunc # rest) =
     (if kind gfunc = kPackedFunc then
        (case AsText_funcs exec rest of Inl e \<Rightarrow> Inl e | Inr r \<Rightarrow>
           Inr (''@'' @ name gfunc @ '' packed_func;'' @ newline @ newline @ r))
      else if kind gfunc = kVMTIRFunc then
        (case AsText_funcs exec rest of Inl e \<Rightarrow> Inl e | Inr r \<Rightarrow>
           Inr (''@'' @ name gfunc @ '' num_inputs='' @ to_string (num_args gfunc)
                @ '' vm_tir_func;'' @ newline @ newline @ r))
      else if kind gfunc \<noteq> kVMFunc then
        Inl (Check_failed ''gfunc.kind == VMFuncInfo::FuncKind::kVMFunc'' [])
      else
        (case AsText_instrs exec (unat (end_instr gfunc) - unat (start_instr gfunc))
                (unat (start_instr gfunc)) of
           Inl e \<Rightarrow> Inl e
         | Inr body \<Rightarrow>
             (case AsText_funcs exec rest of Inl e \<Rightarrow> Inl e | Inr r \<Rightarrow>
                Inr (''@'' @ name gfunc @ '':'' @ newline @ body @ newline @ r))))"

definition AsText :: "'nd VMExecutable \<Rightarrow> error + string" where
  "AsText exec = AsText_funcs exec (func_table exec)"

subsection \<open>Python format\<close>

definition get_func_name_py :: "'nd VMExecutable \<Rightarrow> Index \<Rightarrow> string" where
  "get_func_name_py exec index =
     (if unat index < length (func_table exec)
      then [CHR 0x22] @ name (func_table exec ! unat index) @ [CHR 0x22]
      else ''ib.unknown_func_index('' @ to_string index @ '')'')"

definition arg_to_py_str :: "'nd VMExecutable \<Rightarrow> ExecWord \<Rightarrow> error + string" where
  "arg_to_py_str exec arg =
     (case Arg_kind arg of
        kRegister \<Rightarrow>
          if Arg_value arg = kVMRegister then Inr ''ib.r(vm)''
          else Inr (''ib.r('' @ to_string (Arg_value arg) @ '')'')
      | kImmediate \<Rightarrow> Inr (''ib.imm('' @ to_string (Arg_value arg) @ '')'')
      | kConstIdx \<Rightarrow> Inr (''ib.c('' @ to_string (Arg_value arg) @ '')'')
      | kFuncIdx \<Rightarrow> Inr (''ib.f('' @ get_func_name_py exec (Arg_value arg) @ '')'')
      | kOtherKind k \<Rightarrow> Inl (Fatal (''Wrong instruction kind: '' @ to_string (ucast k))))"

definition AsPython_instr :: "'nd VMExecutable \<Rightarrow> Instruction \<Rightarrow> error + string" where
  "AsPython_instr exec instr =
     (case instr of
        Call dst func_idx n_args args \<Rightarrow>
          (case StrJoin (instr_data exec) args n_args '', '' (arg_to_py_str exec) of
             Inl e \<Rightarrow> Inl e
           | Inr joined \<Rightarrow>
               Inr (''    ib.emit_call('' @ get_func_name_py exec func_idx @ '', args=['' @ joined
                    @ '']''
                    @ (if dst \<noteq> kVoidRegister then '', dst=ib.r('' @ to_string dst @ '')'' else [])
                    @ '')'' @ newline))
      | Ret result \<Rightarrow> Inr (''    ib.emit_ret(ib.r('' @ to_string result @ ''))'' @ newline)
      | Goto pc_offset \<Rightarrow> Inr (''    ib.emit_goto('' @ to_string pc_offset @ '')'' @ newline)
      | If_instr cond false_offset \<Rightarrow>
          Inr (''    ib.emit_if(ib.r('' @ to_string cond @ ''), '' @ to_string false_offset
               @ '')'' @ newline))"

fun AsPython_instrs :: "'nd VMExecutable \<Rightarrow> nat \<Rightarrow> nat \<Rightarrow> error + string" where
  "AsPython_instrs exec 0 idx = Inr []"
| "AsPython_instrs exec (Suc n) idx =
     (case GetInstruction exec (word_of_nat idx) of Inl e \<Rightarrow> Inl e | Inr instr \<Rightarrow>
      case AsPython_instr exec instr of Inl e \<Rightarrow> Inl e | Inr s \<Rightarrow>
      case AsPython_instrs exec n (Suc idx) of Inl e \<Rightarrow> Inl e | Inr r \<Rightarrow>
        Inr (s @ r))"

fun AsPython_funcs :: "'nd VMExecutable \<Rightarrow> VMFuncInfo list \<Rightarrow> error + string" where
  "AsPython_funcs exec [] = Inr []"
| "AsPython_funcs exec (gfunc # rest) =
     (if kind gfunc = kPackedFunc then AsPython_funcs exec rest
      else if kind gfunc = kVMTIRFunc then AsPython_funcs exec rest
      else if kind gfunc \<noteq> kVMFunc then
        Inl (Check_failed ''gfunc.kind == VMFuncInfo::FuncKind::kVMFunc'' [])
      else
        (case AsPython_instrs exec (unat (end_instr gfunc) - unat (start_instr gfunc))
                (unat (start_instr gfunc)) of
           Inl e \<Rightarrow> Inl e
         | Inr body \<Rightarrow>
             (case AsPython_funcs exec rest of Inl e \<Rightarrow> Inl e | Inr r \<Rightarrow>
                Inr (''with ib.function('' @ [CHR 0x22] @ name gfunc @ [CHR 0x22] @ '', num_inputs=''
                     @ to_string (num_args gfunc) @ ''):'' @ newline @ body @ r))))"

definition AsPython :: "'nd VMExecutable \<Rightarrow> error + string" where
  "AsPython exec =
     (case AsPython_funcs exec (func_table exec) of
        Inl e \<Rightarrow> Inl e
      | Inr r \<Rightarrow> Inr (''ib = rx.Builder()'' @ newline @ r))"

subsection \<open>Substrings\<close>

fun starts_with :: "'a list \<Rightarrow> 'a list \<Rightarrow> bool" where
  "starts_with s [] = True"
| "starts_with [] (p # ps) = False"
| "starts_with (c # s) (p # ps) = (c = p \<and> starts_with s ps)"

fun contains :: "'a list \<Rightarrow> 'a list \<Rightarrow> bool" where
  "contains [] sub = (sub = [])"
| "contains (c # s) sub = (starts_with (c # s) sub \<or> contains s sub)"

subsection \<open>The executable of scenario S1\<close>

text \<open>
  One function \<open>main\<close> with the three instructions
  \<^verbatim>\<open>call f0 in:%0,i3 dst:%1; goto 1; ret %1\<close> and no constants.
\<close>

definition S1_exec :: "byte VMExecutable" where
  "S1_exec =
     \<lparr>constants = [],
      func_table = [\<lparr>kind = kVMFunc, name = ''main'', start_instr = 0, end_instr = 3,
                     num_args = 1, register_file_size = 2, param_names = [''x'']\<rparr>],
      func_map = [''main'' \<mapsto> 0],
      instr_offset = [0, 6, 8],
      instr_data = [1, 1, 0, 2, Arg 0 0, Arg 1 3, 3, 1, 2, 1]\<rparr>"

subsection \<open>Example inputs\<close>

text \<open>
  A blob that ends inside its constant section: header, version, an empty function table,
  the count 1, the tag of an integer constant, and nothing after it.
\<close>

definition truncated_int_blob :: "byte list" where
  "truncated_int_blob =
     Write_bytes (SaveHeader ''0.14'' @ Write_vector VMFuncInfo_Save []
                  @ Write_u64 1 @ Write_i32 (kTVMFFIInt spec_TypeIndex))"

text \<open>The disassembly of the executable of scenario S1.\<close>

definition S1_text :: string where
  "S1_text = ''@main:'' @ newline
   @ ''  call  main             in: %0, i3       dst: %1'' @ newline
   @ ''  goto  1'' @ newline
   @ ''  ret   %1'' @ newline @ newline"

text \<open>
  The kinds that are declarations without bytecode, and the integers that are none of the
  three kinds.
\<close>

definition declared_kind :: "VMFuncInfo \<Rightarrow> bool" where
  "declared_kind f \<longleftrightarrow> kind f = kPackedFunc \<or> kind f = kVMTIRFunc"


definition unknown_kind :: "VMFuncInfo \<Rightarrow> bool" where
  "unknown_kind f \<longleftrightarrow> kind f \<noteq> kPackedFunc \<and> kind f \<noteq> kVMTIRFunc \<and> kind f \<noteq> kVMFunc"

text \<open>An executable without a VM function, and one whose only entry has the kind 3.\<close>

definition packed_only_exec :: "byte VMExecutable" where
  "packed_only_exec =
     \<lparr>constants = [],
      func_table = [\<lparr>kind = kPackedFunc, name = ''f'', start_instr = 0, end_instr = 0,
                     num_args = 0, register_file_size = 0, param_names = []\<rparr>,
                    \<lparr>kind = kVMTIRFunc, name = ''t'', start_instr = 0, end_instr = 0,
                     num_args = 2, register_file_size = 0, param_names = []\<rparr>],
      func_map = [''f'' \<mapsto> 0, ''t'' \<mapsto> 1], instr_offset = [], instr_data = []\<rparr>"


definition unknown_kind_exec :: "byte VMExecutable" where
  "unknown_kind_exec =
     \<lparr>constants = [],
      func_table = [\<lparr>kind = 3, name = ''g'', start_instr = 0, end_instr = 0,
                     num_args = 0, register_file_size = 0, param_names = []\<rparr>],
      func_map = [''g'' \<mapsto> 0], instr_offset = [], instr_data = []\<rparr>"


section \<open>Structural equality: data model\<close>

text \<open>
  A node is identified by its address; an object reference is an address or null.
\<close>

type_synonym obj = nat
type_synonym ObjectRef = "obj option"

text \<open>
  Modelled from the spec: the object path class is not among the sources. Section 3: a
  path is a root and a sequence of segments, each an attribute, an index or \<open>Missing\<close>;
  section 4.5: \<open>Attr\<close> of no name appends \<open>Missing\<close>.
\<close>

datatype segment = Attr string | Index nat | Missing

type_synonym ObjectPath = "segment list"

record ObjectPathPair =
  lhs_path :: ObjectPath
  rhs_path :: ObjectPath

definition ObjectPath_Root :: ObjectPath where
  "ObjectPath_Root = []"

definition ObjectPath_Attr :: "ObjectPath \<Rightarrow> string option \<Rightarrow> ObjectPath" where
  "ObjectPath_Attr path attr_key =
     path @ [case attr_key of None \<Rightarrow> Missing | Some k \<Rightarrow> Attr k]"

text \<open>
  A tagged value: a plain value below the first object tag, with its 64 payload bits, or
  an object.
\<close>

datatype Any = AnyPOD nat "64 word" | AnyObject obj

record Task =
  lhs :: ObjectRef
  rhs :: ObjectRef
  current_paths :: "ObjectPathPair option"
  map_free_vars :: bool
  children_expanded :: bool
  graph_equal :: bool
  force_fail :: bool

definition new_Task :: "ObjectRef \<Rightarrow> ObjectRef \<Rightarrow> bool \<Rightarrow> ObjectPathPair option \<Rightarrow> Task" where
  "new_Task a b free_vars paths =
     \<lparr>lhs = a, rhs = b, current_paths = paths, map_free_vars = free_vars,
      children_expanded = False, graph_equal = False, force_fail = False\<rparr>"

text \<open>
  The task built with the force-fail tag: null operands; \<open>map_free_vars\<close> is left
  without an initializer by the source and is never read for such a task.
\<close>

definition ForceFail_Task :: "ObjectPathPair \<Rightarrow> Task" where
  "ForceFail_Task paths =
     \<lparr>lhs = None, rhs = None, current_paths = Some paths, map_free_vars = False,
      children_expanded = False, graph_equal = False, force_fail = True\<rparr>"

text \<open>
  The mutable fields of the engine. \<open>task_stack\<close> has the top of the stack (the back of
  the vector) at its head; \<open>pending_tasks\<close> is in the order of insertion.
  \<open>first_mismatch\<close> is the slot the engine's pointer refers to when path tracing is on.
\<close>

record Impl =
  pending_tasks :: "Task list"
  task_stack :: "Task list"
  allow_push_to_stack :: bool
  equal_map_lhs :: "ObjectRef \<rightharpoonup> ObjectRef"
  equal_map_rhs :: "ObjectRef \<rightharpoonup> ObjectRef"
  first_mismatch :: "ObjectPathPair option"

text \<open>The arguments of the constructor; \<open>path_tracing\<close> says that the pointer is not null.\<close>

record config =
  assert_mode :: bool
  path_tracing :: bool
  defer_fails :: bool

text \<open>
  What a per-type reducer sees of the reducer object: the current paths when tracing is
  on, and the flag for free variables.
\<close>

record SEqualReducer =
  tracing_data :: "ObjectPathPair option"
  reducer_free_vars :: bool

section \<open>Per-type reducers\<close>

text \<open>
  The per-type reducers are code outside the engine. A reducer is modelled by the calls it
  makes on the reducer object and the handler, each followed by what it does with the
  answer, until it returns a boolean or aborts: a tree of calls. A call names the values
  it passes; for a comparison of two leaves the reducer passes the outcome of the value
  comparison, and for a call that derives a path from the address of an attribute it
  passes the attribute names that the reflection lookup finds there (none when the
  address is not an attribute).
\<close>

datatype answer = A_bool bool | A_paths ObjectPathPair | A_ref ObjectRef | A_unit

datatype call =
    Equal_object ObjectRef ObjectRef "string option" "string option"
  | Equal_object_paths ObjectRef ObjectRef ObjectPathPair
  | DefEqual ObjectRef ObjectRef "string option" "string option"
  | Equal_value bool "ObjectPathPair option" "string option" "string option"
  | AnyEqual Any Any "ObjectPathPair option"
  | EnumAttrsEqual int int "ObjectPathPair option"
  | GetCurrentObjectPaths
  | RecordMismatchPaths ObjectPathPair
  | IsPathTracingEnabled
  | MarkGraphNode
  | MapLhsToRhs ObjectRef
  | IsFailDeferralEnabled
  | DeferFail ObjectPathPair

datatype prog = Return bool | Abort error | Do call "answer \<Rightarrow> prog"

text \<open>
  The environment of the engine: the type index and the type key of every node, the first
  type index of objects, and the table of registered reducers by type index. A reducer
  gets the two nodes and the flag for free variables.
\<close>

record env =
  type_index :: "obj \<Rightarrow> nat"
  GetTypeKey :: "obj \<Rightarrow> string"
  kTVMFFIStaticObjectBegin :: nat
  fsequal_reduce :: "nat \<Rightarrow> (obj \<Rightarrow> obj \<Rightarrow> bool \<Rightarrow> prog) option"

definition Any_type_index :: "env \<Rightarrow> Any \<Rightarrow> nat" where
  "Any_type_index E a = (case a of AnyPOD t v \<Rightarrow> t | AnyObject x \<Rightarrow> type_index E x)"

definition Any_v_uint64 :: "Any \<Rightarrow> 64 word" where
  "Any_v_uint64 a = (case a of AnyPOD t v \<Rightarrow> v | AnyObject x \<Rightarrow> word_of_nat x)"

definition Any_cast_ObjectRef :: "Any \<Rightarrow> ObjectRef" where
  "Any_cast_ObjectRef a = (case a of AnyPOD t v \<Rightarrow> None | AnyObject x \<Rightarrow> Some x)"

section \<open>The engine\<close>

definition IsPathTracingEnabled_impl :: "config \<Rightarrow> bool" where
  "IsPathTracingEnabled_impl cfg = path_tracing cfg"

definition IsFailDeferralEnabled_impl :: "config \<Rightarrow> bool" where
  "IsFailDeferralEnabled_impl cfg = defer_fails cfg"

text \<open>
  \<open>CheckResult\<close>: the first failure records the paths it is given (which may be
  undefined); in assert mode a failure is fatal. The message is rendered by the external
  printer; only its fixed beginning is kept. To build the message the source reads
  \<open>first_mismatch_->defined()\<close>, whatever the tracing: without path tracing the pointer
  is null and the read has no defined behaviour.
\<close>

definition CheckResult :: "config \<Rightarrow> bool \<Rightarrow> ObjectPathPair option \<Rightarrow> Impl \<Rightarrow> error + (bool \<times> Impl)" where
  "CheckResult cfg result paths s =
     (let s' = (if IsPathTracingEnabled_impl cfg \<and> \<not> result \<and> first_mismatch s = None
                then s\<lparr>first_mismatch := paths\<rparr> else s)
      in if assert_mode cfg \<and> \<not> result
         then (if IsPathTracingEnabled_impl cfg
               then Inl (Fatal ''ValueError: StructuralEqual check failed, caused by lhs'')
               else Inl Null_dereference)
         else Inr (result, s'))"

definition DeferFail_impl :: "ObjectPathPair \<Rightarrow> Impl \<Rightarrow> Impl" where
  "DeferFail_impl mismatch_paths s =
     s\<lparr>pending_tasks := pending_tasks s @ [ForceFail_Task mismatch_paths]\<rparr>"

text \<open>The early-result rules of \<open>SEqualReduce\<close>, in the order of the source.\<close>

definition early_result :: "env \<Rightarrow> ObjectRef \<Rightarrow> ObjectRef \<Rightarrow> Impl \<Rightarrow> bool option" where
  "early_result E a b s =
     (case (a, b) of
        (None, None) \<Rightarrow> Some True
      | (None, Some y) \<Rightarrow> Some False
      | (Some x, None) \<Rightarrow> Some False
      | (Some x, Some y) \<Rightarrow>
          if type_index E x \<noteq> type_index E y then Some False
          else (case equal_map_lhs s a of
                  Some it \<Rightarrow> Some (it = b)
                | None \<Rightarrow> if equal_map_rhs s b \<noteq> None then Some False else None))"

definition SEqualReduce ::
  "env \<Rightarrow> config \<Rightarrow> ObjectRef \<Rightarrow> ObjectRef \<Rightarrow> bool \<Rightarrow> ObjectPathPair option \<Rightarrow> Impl
     \<Rightarrow> error + (bool \<times> Impl)" where
  "SEqualReduce E cfg a b free_vars paths s =
     (case early_result E a b s of
        Some True \<Rightarrow> CheckResult cfg True paths s
      | Some False \<Rightarrow>
          (case paths of
             Some p \<Rightarrow>
               if IsPathTracingEnabled_impl cfg \<and> IsFailDeferralEnabled_impl cfg
               then CheckResult cfg True paths (DeferFail_impl p s)
               else CheckResult cfg False paths s
           | None \<Rightarrow> CheckResult cfg False paths s)
      | None \<Rightarrow>
          CheckResult cfg True paths
            (s\<lparr>pending_tasks := pending_tasks s @ [new_Task a b free_vars paths]\<rparr>))"

definition MarkGraphNode_impl :: "Impl \<Rightarrow> error + Impl" where
  "MarkGraphNode_impl s =
     (case task_stack s of
        [] \<Rightarrow> Inl (Check_failed ''!allow_push_to_stack_ && !task_stack_.empty()'' [])
      | entry # rest \<Rightarrow>
          if allow_push_to_stack s
          then Inl (Check_failed ''!allow_push_to_stack_ && !task_stack_.empty()'' [])
          else Inr (s\<lparr>task_stack := entry\<lparr>graph_equal := True\<rparr> # rest\<rparr>))"

definition MapLhsToRhs_impl :: "ObjectRef \<Rightarrow> Impl \<Rightarrow> ObjectRef" where
  "MapLhsToRhs_impl a s = (case equal_map_lhs s a of Some it \<Rightarrow> it | None \<Rightarrow> a)"

section \<open>The reducer object\<close>

definition GetAttrPath :: "string option \<Rightarrow> ObjectPath \<Rightarrow> ObjectPath" where
  "GetAttrPath attr_key path = ObjectPath_Attr path attr_key"

definition GetPathsForAttrs :: "ObjectPathPair \<Rightarrow> string option \<Rightarrow> string option \<Rightarrow> ObjectPathPair" where
  "GetPathsForAttrs cur lkey rkey =
     \<lparr>lhs_path = GetAttrPath lkey (lhs_path cur), rhs_path = GetAttrPath rkey (rhs_path cur)\<rparr>"

definition GetPathsFromAttrAddressesAndStoreMismatch ::
  "ObjectPathPair option \<Rightarrow> string option \<Rightarrow> string option \<Rightarrow> Impl \<Rightarrow> Impl" where
  "GetPathsFromAttrAddressesAndStoreMismatch tracing lkey rkey s =
     (case tracing of
        None \<Rightarrow> s
      | Some cur \<Rightarrow>
          if first_mismatch s = None
          then s\<lparr>first_mismatch := Some (GetPathsForAttrs cur lkey rkey)\<rparr> else s)"

text \<open>
  The comparison of two leaves; \<open>v\<close> is the outcome of the value comparison of the leaves.
\<close>

definition CompareAttributeValues ::
  "bool \<Rightarrow> ObjectPathPair option \<Rightarrow> ObjectPathPair option \<Rightarrow> string option \<Rightarrow> string option \<Rightarrow> Impl
     \<Rightarrow> bool \<times> Impl" where
  "CompareAttributeValues v tracing paths lkey rkey s =
     (if v then (True, s)
      else if tracing \<noteq> None \<and> first_mismatch s = None then
        (case paths of
           Some p \<Rightarrow> (False, s\<lparr>first_mismatch := Some p\<rparr>)
         | None \<Rightarrow> (False, GetPathsFromAttrAddressesAndStoreMismatch tracing lkey rkey s))
      else (False, s))"

definition ObjectAttrsEqual ::
  "env \<Rightarrow> config \<Rightarrow> SEqualReducer \<Rightarrow> ObjectRef \<Rightarrow> ObjectRef \<Rightarrow> bool \<Rightarrow> ObjectPathPair option
     \<Rightarrow> string option \<Rightarrow> string option \<Rightarrow> Impl \<Rightarrow> error + (bool \<times> Impl)" where
  "ObjectAttrsEqual E cfg eq a b free_vars paths lkey rkey s =
     (case tracing_data eq of
        None \<Rightarrow> SEqualReduce E cfg a b free_vars None s
      | Some cur \<Rightarrow>
          let new_paths = (case paths of None \<Rightarrow> GetPathsForAttrs cur lkey rkey | Some p \<Rightarrow> p)
          in (case SEqualReduce E cfg a b free_vars (Some new_paths) s of
                Inl e \<Rightarrow> Inl e
              | Inr (ok, s') \<Rightarrow>
                  if ok then Inr (True, s')
                  else if first_mismatch s' = None
                       then Inr (False, s'\<lparr>first_mismatch := Some new_paths\<rparr>)
                       else Inr (False, s')))"

text \<open>
  \<open>AnyEqual\<close>. Without explicit paths the objects are compared through local copies
  of the references, whose addresses are not attributes of the node.
\<close>

definition AnyEqual_impl ::
  "env \<Rightarrow> config \<Rightarrow> SEqualReducer \<Rightarrow> Any \<Rightarrow> Any \<Rightarrow> ObjectPathPair option \<Rightarrow> Impl
     \<Rightarrow> error + (bool \<times> Impl)" where
  "AnyEqual_impl E cfg eq x y paths s =
     (let record_mismatch =
            (if tracing_data eq \<noteq> None \<and> first_mismatch s = None
             then (case paths of Some p \<Rightarrow> s\<lparr>first_mismatch := Some p\<rparr> | None \<Rightarrow> s)
             else s)
      in if Any_type_index E x \<noteq> Any_type_index E y then Inr (False, record_mismatch)
         else if kTVMFFIStaticObjectBegin E \<le> Any_type_index E x then
           ObjectAttrsEqual E cfg eq (Any_cast_ObjectRef x) (Any_cast_ObjectRef y)
             (reducer_free_vars eq) paths None None s
         else if Any_v_uint64 x = Any_v_uint64 y then Inr (True, s)
         else Inr (False, record_mismatch))"

text \<open>
  \<open>EnumAttrsEqual\<close> derives the path from the addresses of its own two integer
  parameters, not from the two attribute addresses it is given.
\<close>

definition EnumAttrsEqual_impl ::
  "SEqualReducer \<Rightarrow> int \<Rightarrow> int \<Rightarrow> ObjectPathPair option \<Rightarrow> Impl \<Rightarrow> bool \<times> Impl" where
  "EnumAttrsEqual_impl eq a b paths s =
     (if a = b then (True, s)
      else if tracing_data eq \<noteq> None \<and> first_mismatch s = None then
        (case paths of
           Some p \<Rightarrow> (False, s\<lparr>first_mismatch := Some p\<rparr>)
         | None \<Rightarrow> (False, GetPathsFromAttrAddressesAndStoreMismatch (tracing_data eq) None None s))
      else (False, s))"

definition answer_bool :: "error + (bool \<times> Impl) \<Rightarrow> error + (answer \<times> Impl)" where
  "answer_bool r = (case r of Inl e \<Rightarrow> Inl e | Inr (v, s) \<Rightarrow> Inr (A_bool v, s))"

definition do_call :: "env \<Rightarrow> config \<Rightarrow> SEqualReducer \<Rightarrow> call \<Rightarrow> Impl \<Rightarrow> error + (answer \<times> Impl)" where
  "do_call E cfg eq c s =
     (case c of
        Equal_object a b lkey rkey \<Rightarrow>
          answer_bool
            (ObjectAttrsEqual E cfg eq a b (reducer_free_vars eq) None lkey rkey s)
      | Equal_object_paths a b p \<Rightarrow>
          answer_bool
            (ObjectAttrsEqual E cfg eq a b (reducer_free_vars eq) (Some p) None None s)
      | DefEqual a b lkey rkey \<Rightarrow>
          answer_bool (ObjectAttrsEqual E cfg eq a b True None lkey rkey s)
      | Equal_value v paths lkey rkey \<Rightarrow>
          answer_bool (Inr (CompareAttributeValues v (tracing_data eq) paths lkey rkey s))
      | AnyEqual x y paths \<Rightarrow>
          answer_bool (AnyEqual_impl E cfg eq x y paths s)
      | EnumAttrsEqual a b paths \<Rightarrow>
          answer_bool (Inr (EnumAttrsEqual_impl eq a b paths s))
      | GetCurrentObjectPaths \<Rightarrow>
          (case tracing_data eq of
             None \<Rightarrow> Inl (Check_failed ''tracing_data_ != nullptr''
                ''GetCurrentObjectPaths() can only be called when path tracing is enabled'')
           | Some cur \<Rightarrow> Inr (A_paths cur, s))
      | RecordMismatchPaths p \<Rightarrow>
          (case tracing_data eq of
             None \<Rightarrow> Inl (Check_failed ''tracing_data_ != nullptr''
                ''RecordMismatchPaths() can only be called when path tracing is enabled'')
           | Some cur \<Rightarrow>
               Inr (A_unit, if first_mismatch s = None then s\<lparr>first_mismatch := Some p\<rparr> else s))
      | IsPathTracingEnabled \<Rightarrow> Inr (A_bool (tracing_data eq \<noteq> None), s)
      | MarkGraphNode \<Rightarrow>
          (case MarkGraphNode_impl s of Inl e \<Rightarrow> Inl e | Inr s' \<Rightarrow> Inr (A_unit, s'))
      | MapLhsToRhs a \<Rightarrow> Inr (A_ref (MapLhsToRhs_impl a s), s)
      | IsFailDeferralEnabled \<Rightarrow> Inr (A_bool (IsFailDeferralEnabled_impl cfg), s)
      | DeferFail p \<Rightarrow> Inr (A_unit, DeferFail_impl p s))"

text \<open>Running a reducer: its calls are made in order on the engine.\<close>

primrec run_reducer :: "env \<Rightarrow> config \<Rightarrow> SEqualReducer \<Rightarrow> prog \<Rightarrow> Impl \<Rightarrow> error + (bool \<times> Impl)" where
  "run_reducer E cfg eq (Return v) = (\<lambda>s. Inr (v, s))"
| "run_reducer E cfg eq (Abort e) = (\<lambda>s. Inl e)"
| "run_reducer E cfg eq (Do c k) =
     (\<lambda>s. case do_call E cfg eq c s of
             Inl e \<Rightarrow> Inl e
           | Inr (a, s') \<Rightarrow> run_reducer E cfg eq (k a) s')"

text \<open>\<open>ReflectionVTable::SEqualReduce\<close>: the dispatch on the type index of the node.\<close>

definition ReflectionVTable_SEqualReduce ::
  "env \<Rightarrow> config \<Rightarrow> obj \<Rightarrow> obj \<Rightarrow> SEqualReducer \<Rightarrow> Impl \<Rightarrow> error + (bool \<times> Impl)" where
  "ReflectionVTable_SEqualReduce E cfg self other eq s =
     (case fsequal_reduce E (type_index E self) of
        None \<Rightarrow>
          Inl (Fatal (''TypeError: SEqualReduce of '' @ GetTypeKey E self
                 @ '' is not registered via TVM_REGISTER_NODE_TYPE.''
                 @ '' Did you forget to set _type_has_method_sequal_reduce=true?''))
      | Some f \<Rightarrow> run_reducer E cfg eq (f self other (reducer_free_vars eq)) s)"

definition DispatchSEqualReduce ::
  "env \<Rightarrow> config \<Rightarrow> ObjectRef \<Rightarrow> ObjectRef \<Rightarrow> bool \<Rightarrow> ObjectPathPair option \<Rightarrow> Impl
     \<Rightarrow> error + (bool \<times> Impl)" where
  "DispatchSEqualReduce E cfg a b free_vars paths s =
     (case (case (a, b) of
              (Some x, Some y) \<Rightarrow>
                if type_index E x \<noteq> type_index E y then
                  Inl (Check_failed
                    ''lhs.defined() && rhs.defined() && lhs->type_index() == rhs->type_index()'' [])
                else
                  (case equal_map_lhs s a of
                     Some it \<Rightarrow> Inr (it = b, s)
                   | None \<Rightarrow>
                       if equal_map_rhs s b \<noteq> None then Inr (False, s)
                       else if \<not> IsPathTracingEnabled_impl cfg then
                         ReflectionVTable_SEqualReduce E cfg x y
                           \<lparr>tracing_data = None, reducer_free_vars = free_vars\<rparr> s
                       else
                         (case paths of
                            None \<Rightarrow> Inl (Fatal ''Bad optional access'')
                          | Some cur \<Rightarrow>
                              ReflectionVTable_SEqualReduce E cfg x y
                                \<lparr>tracing_data = Some cur, reducer_free_vars = free_vars\<rparr> s))
            | _ \<Rightarrow>
                Inl (Check_failed
                  ''lhs.defined() && rhs.defined() && lhs->type_index() == rhs->type_index()'' []))
      of
        Inl e \<Rightarrow> Inl e
      | Inr (result, s') \<Rightarrow> CheckResult cfg result paths s')"

section \<open>The task loop\<close>

text \<open>
  One iteration of the loop of \<open>RunTasks\<close> on a stack that is not empty: either the
  loop returns (\<open>Inl\<close>: a boolean with the final state, or a fatal error) or it goes on
  with the next state (\<open>Inr\<close>).
\<close>

definition complete_entry :: "Task \<Rightarrow> Task list \<Rightarrow> Impl \<Rightarrow> Impl" where
  "complete_entry entry rest s =
     (if graph_equal entry
      then s\<lparr>equal_map_lhs := (equal_map_lhs s)(lhs entry \<mapsto> rhs entry),
             equal_map_rhs := (equal_map_rhs s)(rhs entry \<mapsto> lhs entry),
             task_stack := rest\<rparr>
      else s\<lparr>task_stack := rest\<rparr>)"

definition push_pending :: "Impl \<Rightarrow> Impl" where
  "push_pending s =
     s\<lparr>allow_push_to_stack := True,
       task_stack := pending_tasks s @ task_stack s,
       pending_tasks := []\<rparr>"

definition RunTasks_step :: "env \<Rightarrow> config \<Rightarrow> Task \<Rightarrow> Task list \<Rightarrow> Impl \<Rightarrow> (error + bool \<times> Impl) + Impl" where
  "RunTasks_step E cfg entry rest s =
     (if force_fail entry then Inl (CheckResult cfg False (current_paths entry) s)
      else if children_expanded entry then
        (case equal_map_lhs s (lhs entry) of
           Some it \<Rightarrow>
             if it = rhs entry then Inr (complete_entry entry rest s)
             else Inl (Inl (Check_failed ''it->second.same_as(entry.rhs)'' []))
         | None \<Rightarrow> Inr (complete_entry entry rest s))
      else
        (let s1 = s\<lparr>task_stack := entry\<lparr>children_expanded := True\<rparr> # rest\<rparr>
         in if pending_tasks s1 \<noteq> [] then
              Inl (Inl (Check_failed ''pending_tasks_.size() == 0U'' []))
            else
              (case DispatchSEqualReduce E cfg (lhs entry) (rhs entry) (map_free_vars entry)
                      (current_paths entry) (s1\<lparr>allow_push_to_stack := False\<rparr>) of
                 Inl e \<Rightarrow> Inl (Inl e)
               | Inr (ok, s2) \<Rightarrow>
                   if ok then Inr (push_pending s2) else Inl (Inr (False, s2)))))"

partial_function (option) RunTasks :: "env \<Rightarrow> config \<Rightarrow> Impl \<Rightarrow> (error + bool \<times> Impl) option" where
  "RunTasks E cfg s =
     (case task_stack s of
        [] \<Rightarrow> Some (Inr (True, s))
      | entry # rest \<Rightarrow>
          (case RunTasks_step E cfg entry rest s of
             Inl res \<Rightarrow> Some res
           | Inr s' \<Rightarrow> RunTasks E cfg s'))"

section \<open>The top-level check\<close>

definition new_Impl :: Impl where
  "new_Impl =
     \<lparr>pending_tasks = [], task_stack = [], allow_push_to_stack = True,
      equal_map_lhs = Map.empty, equal_map_rhs = Map.empty, first_mismatch = None\<rparr>"

definition clear_Impl :: "Impl \<Rightarrow> Impl" where
  "clear_Impl s =
     s\<lparr>task_stack := [], pending_tasks := [], equal_map_lhs := Map.empty,
       equal_map_rhs := Map.empty\<rparr>"

definition root_paths :: "config \<Rightarrow> ObjectPathPair option" where
  "root_paths cfg =
     (if IsPathTracingEnabled_impl cfg
      then Some \<lparr>lhs_path = ObjectPath_Root, rhs_path = ObjectPath_Root\<rparr> else None)"

text \<open>The state in which \<open>Equal\<close> enters the task loop, when it gets there.\<close>

definition start_tasks :: "Impl \<Rightarrow> error + Impl" where
  "start_tasks s =
     (if length (pending_tasks s) \<noteq> 1 then Inl (Check_failed ''pending_tasks_.size() == 1U'' [])
      else if \<not> allow_push_to_stack s then Inl (Check_failed ''allow_push_to_stack_'' [])
      else Inr (s\<lparr>task_stack := last (pending_tasks s) # task_stack s, pending_tasks := []\<rparr>))"

definition Equal :: "env \<Rightarrow> config \<Rightarrow> Any \<Rightarrow> Any \<Rightarrow> bool \<Rightarrow> Impl \<Rightarrow> (error + bool \<times> Impl) option" where
  "Equal E cfg x y free_vars s =
     (let s0 = clear_Impl s; paths = root_paths cfg
      in if Any_type_index E x \<noteq> Any_type_index E y then Some (CheckResult cfg False paths s0)
         else if Any_type_index E x < kTVMFFIStaticObjectBegin E then
           (if Any_v_uint64 x = Any_v_uint64 y then Some (Inr (True, s0))
            else Some (CheckResult cfg False paths s0))
         else
           (case SEqualReduce E cfg (Any_cast_ObjectRef x) (Any_cast_ObjectRef y) free_vars paths s0 of
              Inl e \<Rightarrow> Some (Inl e)
            | Inr (ok, s1) \<Rightarrow>
                if \<not> ok then Some (Inr (False, s1))
                else (case start_tasks s1 of
                        Inl e \<Rightarrow> Some (Inl e)
                      | Inr s2 \<Rightarrow> RunTasks E cfg s2)))"

text \<open>The registered callables and the function object, each on a fresh engine.\<close>

definition node_StructuralEqual :: "env \<Rightarrow> Any \<Rightarrow> Any \<Rightarrow> bool \<Rightarrow> bool \<Rightarrow> (error + bool) option" where
  "node_StructuralEqual E x y assert_m free_vars =
     map_option (map_sum id fst)
       (Equal E \<lparr>assert_mode = assert_m, path_tracing = True, defer_fails = assert_m\<rparr>
          x y free_vars new_Impl)"

definition node_GetFirstStructuralMismatch ::
  "env \<Rightarrow> Any \<Rightarrow> Any \<Rightarrow> bool \<Rightarrow> (error + ObjectPathPair option) option" where
  "node_GetFirstStructuralMismatch E x y free_vars =
     (case Equal E \<lparr>assert_mode = False, path_tracing = True, defer_fails = True\<rparr>
             x y free_vars new_Impl of
        None \<Rightarrow> None
      | Some (Inl e) \<Rightarrow> Some (Inl e)
      | Some (Inr (equal, s)) \<Rightarrow>
          if equal = (first_mismatch s = None) then Some (Inr (first_mismatch s))
          else Some (Inl (Check_failed ''equal == !first_mismatch.defined()'' [])))"

definition StructuralEqual :: "env \<Rightarrow> obj \<Rightarrow> obj \<Rightarrow> bool \<Rightarrow> (error + bool) option" where
  "StructuralEqual E x y map_free_params =
     map_option (map_sum id fst)
       (Equal E \<lparr>assert_mode = False, path_tracing = False, defer_fails = False\<rparr>
          (AnyObject x) (AnyObject y) map_free_params new_Impl)"

section \<open>Invariants and states of a run\<close>

text \<open>
  Invariants of the engine. A pair of references is typed when both are defined and have
  the same type index; a task is typed when it is a force-fail task or its operands are a
  typed pair.
\<close>

definition typed_pair :: "env \<Rightarrow> ObjectRef \<Rightarrow> ObjectRef \<Rightarrow> bool" where
  "typed_pair E a b \<longleftrightarrow> (\<exists>x y. a = Some x \<and> b = Some y \<and> type_index E x = type_index E y)"

definition typed_maps :: "env \<Rightarrow> Impl \<Rightarrow> bool" where
  "typed_maps E s \<longleftrightarrow> (\<forall>a it. equal_map_lhs s a = Some it \<longrightarrow> typed_pair E a it)"

text \<open>Every entry of \<open>equal_map_rhs\<close> has its inverse entry in \<open>equal_map_lhs\<close>.\<close>

definition rhs_inverse :: "Impl \<Rightarrow> bool" where
  "rhs_inverse s \<longleftrightarrow> (\<forall>a b. equal_map_rhs s b = Some a \<longrightarrow> equal_map_lhs s a = Some b)"

definition typed_task :: "env \<Rightarrow> Task \<Rightarrow> bool" where
  "typed_task E t \<longleftrightarrow> force_fail t \<or> typed_pair E (lhs t) (rhs t)"

definition engine_inv :: "env \<Rightarrow> Impl \<Rightarrow> bool" where
  "engine_inv E s \<longleftrightarrow>
     rhs_inverse s \<and> typed_maps E s
     \<and> list_all (typed_task E) (task_stack s) \<and> list_all (typed_task E) (pending_tasks s)"


text \<open>The configuration of \<open>node.GetFirstStructuralMismatch\<close>.\<close>

definition mismatch_config :: config where
  "mismatch_config = \<lparr>assert_mode = False, path_tracing = True, defer_fails = True\<rparr>"

text \<open>
  The states of the task loop: \<open>RunTasks_reach E cfg s s'\<close> says that the loop started in
  \<open>s\<close> is in state \<open>s'\<close> at the head of some iteration, or returns with state \<open>s'\<close>.
\<close>

inductive RunTasks_reach :: "env \<Rightarrow> config \<Rightarrow> Impl \<Rightarrow> Impl \<Rightarrow> bool" for E cfg s where
  start: "RunTasks_reach E cfg s s"
| step: "RunTasks_reach E cfg s s1 \<Longrightarrow> task_stack s1 = entry # rest
         \<Longrightarrow> RunTasks_step E cfg entry rest s1 = Inr s2 \<Longrightarrow> RunTasks_reach E cfg s s2"
| stop: "RunTasks_reach E cfg s s1 \<Longrightarrow> task_stack s1 = entry # rest
         \<Longrightarrow> RunTasks_step E cfg entry rest s1 = Inl (Inr (v, s2)) \<Longrightarrow> RunTasks_reach E cfg s s2"

text \<open>
  The states of one call of \<open>Equal\<close> on an engine in state \<open>s0\<close>: the cleared state, the
  state after the comparison of the roots, and the states of the task loop.
\<close>

definition Equal_visits :: "env \<Rightarrow> config \<Rightarrow> Any \<Rightarrow> Any \<Rightarrow> bool \<Rightarrow> Impl \<Rightarrow> Impl \<Rightarrow> bool" where
  "Equal_visits E cfg x y free_vars s0 s \<longleftrightarrow>
     s = clear_Impl s0
     \<or> CheckResult cfg False (root_paths cfg) (clear_Impl s0) = Inr (False, s)
     \<or> (Any_type_index E x = Any_type_index E y
        \<and> kTVMFFIStaticObjectBegin E \<le> Any_type_index E x
        \<and> (\<exists>v s1. SEqualReduce E cfg (Any_cast_ObjectRef x) (Any_cast_ObjectRef y) free_vars
                     (root_paths cfg) (clear_Impl s0) = Inr (v, s1)
              \<and> (s = s1 \<or> (\<exists>s2. v \<and> start_tasks s1 = Inr s2 \<and> RunTasks_reach E cfg s2 s))))"

text \<open>
  What a reducer can change: it marks the top of the stack as a graph node, appends typed
  tasks to the pending tasks and records a mismatch; the two maps stay as they are.
\<close>

definition marked :: "Task list \<Rightarrow> Task list \<Rightarrow> bool" where
  "marked st st' \<longleftrightarrow>
     st' = st \<or> (\<exists>e rest. st = e # rest \<and> st' = e\<lparr>graph_equal := True\<rparr> # rest)"

definition frame :: "env \<Rightarrow> Impl \<Rightarrow> Impl \<Rightarrow> bool" where
  "frame E s s' \<longleftrightarrow>
     equal_map_lhs s' = equal_map_lhs s \<and> equal_map_rhs s' = equal_map_rhs s
     \<and> allow_push_to_stack s' = allow_push_to_stack s
     \<and> (\<exists>ts. pending_tasks s' = pending_tasks s @ ts \<and> list_all (typed_task E) ts)
     \<and> marked (task_stack s) (task_stack s')"

subsection \<open>Example graphs\<close>

text \<open>
  Nodes of one type whose reducer marks the node as a graph node; the reducer of node 1
  then compares its inner node 2 with the right-hand node it was given, the reducer of
  every other node returns true.
\<close>

definition wrap_env :: env where
  "wrap_env =
     \<lparr>type_index = (\<lambda>_. 64), GetTypeKey = (\<lambda>_. ''Node''), kTVMFFIStaticObjectBegin = 64,
      fsequal_reduce = (\<lambda>t. if t = 64 then Some (\<lambda>self other free_vars.
         Do MarkGraphNode (\<lambda>_.
           if self = 1 then Do (Equal_object (Some 2) (Some other) (Some ''inner'') None)
                               (\<lambda>a. Return (a = A_bool True))
           else Return True)) else None)\<rparr>"

definition plain_config :: config where
  "plain_config = \<lparr>assert_mode = False, path_tracing = False, defer_fails = False\<rparr>"

text \<open>The state in which the comparison of node 1 with node 3 ends.\<close>

definition wrap_final :: Impl where
  "wrap_final =
     \<lparr>pending_tasks = [], task_stack = [], allow_push_to_stack = True,
      equal_map_lhs = [Some 2 \<mapsto> Some 3, Some 1 \<mapsto> Some 3],
      equal_map_rhs = [Some 3 \<mapsto> Some 1], first_mismatch = None\<rparr>"


definition root_pair :: ObjectPathPair where
  "root_pair = \<lparr>lhs_path = ObjectPath_Root, rhs_path = ObjectPath_Root\<rparr>"

section \<open>Tensor leaves\<close>

text \<open>
  The fields of a tensor container that \<open>NDArrayEqual\<close> reads. The data buffer is the
  byte list \<open>data\<close>.
\<close>

record NDArray_Container =
  device_type :: int
  ndim :: int
  shape :: "64 word list"
  dtype :: DLDataType
  data :: "byte list"

definition kDLCPU :: int where
  "kDLCPU = 1"

text \<open>
  \<open>IsContiguous\<close> and \<open>GetDataSize\<close> are helpers of the runtime that are not among the
  sources, and the attribute name that the reflection lookup finds at the address of a
  dimension is external as well: parameters.
\<close>

record tensor_ops =
  IsContiguous :: "NDArray_Container \<Rightarrow> bool"
  GetDataSize :: "NDArray_Container \<Rightarrow> nat"
  shape_attr_key :: "obj \<Rightarrow> nat \<Rightarrow> string option"

text \<open>
  The loop over the dimensions: \<open>n\<close> dimensions remain, \<open>i\<close> is the loop counter. Each
  pair of dimensions is compared through the reducer (the comparison of two integer
  leaves), and the first pair that differs ends the comparison with false.
\<close>

fun NDArrayEqual_dims ::
  "NDArray_Container \<Rightarrow> NDArray_Container \<Rightarrow> (nat \<Rightarrow> string option) \<Rightarrow> (nat \<Rightarrow> string option)
     \<Rightarrow> nat \<Rightarrow> nat \<Rightarrow> prog \<Rightarrow> prog" where
  "NDArrayEqual_dims l r lkey rkey 0 i rest = rest"
| "NDArrayEqual_dims l r lkey rkey (Suc n) i rest =
     (if i < length (shape l) \<and> i < length (shape r) then
        Do (Equal_value (shape l ! i = shape r ! i) None (lkey i) (rkey i))
           (\<lambda>a. if a = A_bool True then NDArrayEqual_dims l r lkey rkey n (Suc i) rest
                else Return False)
      else Abort Out_of_range)"

text \<open>
  The end of \<open>NDArrayEqual\<close>: the data types, then \<^verbatim>\<open>memcmp\<close> over the first
  \<open>data_size\<close> bytes of both buffers when the data is compared. A buffer shorter than
  that is read outside its bounds, which has no defined behaviour in the source: the value
  \<open>Out_of_range\<close>.
\<close>

definition NDArrayEqual_data :: "tensor_ops \<Rightarrow> NDArray_Container \<Rightarrow> NDArray_Container \<Rightarrow> bool \<Rightarrow> prog" where
  "NDArrayEqual_data ops l r compare_data =
     (if code (dtype l) = code (dtype r) \<and> lanes (dtype l) = lanes (dtype r)
         \<and> bits (dtype l) = bits (dtype r) then
        (let data_size = GetDataSize ops l in
         if compare_data then
           (if data_size \<le> length (data l) \<and> data_size \<le> length (data r)
            then Return (take data_size (data l) = take data_size (data r))
            else Abort Out_of_range)
         else Return True)
      else Return False)"

text \<open>
  \<open>NDArrayEqual\<close> is itself a reducer: it returns, aborts on a failed check, or calls the
  reducer object. The two containers are given by their addresses.
\<close>

definition NDArrayEqual ::
  "tensor_ops \<Rightarrow> (obj \<Rightarrow> NDArray_Container) \<Rightarrow> obj \<Rightarrow> obj \<Rightarrow> bool \<Rightarrow> prog" where
  "NDArrayEqual ops heap lhs_ptr rhs_ptr compare_data =
     (if lhs_ptr = rhs_ptr then Return True
      else
        let l = heap lhs_ptr; r = heap rhs_ptr in
        if device_type l \<noteq> kDLCPU then
          Abort (Check_failed ''lhs->device.device_type == kDLCPU'' ''can only compare CPU tensor'')
        else if device_type r \<noteq> kDLCPU then
          Abort (Check_failed ''rhs->device.device_type == kDLCPU'' ''can only compare CPU tensor'')
        else if \<not> IsContiguous ops l then
          Abort (Check_failed ''runtime::IsContiguous(*lhs)'' ''Can only compare contiguous tensor'')
        else if \<not> IsContiguous ops r then
          Abort (Check_failed ''runtime::IsContiguous(*rhs)'' ''Can only compare contiguous tensor'')
        else if ndim l \<noteq> ndim r then Return False
        else
          NDArrayEqual_dims l r (shape_attr_key ops lhs_ptr) (shape_attr_key ops rhs_ptr)
            (nat (ndim l)) 0 (NDArrayEqual_data ops l r compare_data))"

definition NDArrayContainerTrait_SEqualReduce ::
  "tensor_ops \<Rightarrow> (obj \<Rightarrow> NDArray_Container) \<Rightarrow> obj \<Rightarrow> obj \<Rightarrow> prog" where
  "NDArrayContainerTrait_SEqualReduce ops heap lhs_ptr rhs_ptr = NDArrayEqual ops heap lhs_ptr rhs_ptr True"

text \<open>The precondition of the comparison, and the equality of two tensors.\<close>

definition cpu_contiguous :: "tensor_ops \<Rightarrow> NDArray_Container \<Rightarrow> NDArray_Container \<Rightarrow> bool" where
  "cpu_contiguous ops l r \<longleftrightarrow>
     device_type l = kDLCPU \<and> device_type r = kDLCPU \<and> IsContiguous ops l \<and> IsContiguous ops r"

definition same_dims :: "NDArray_Container \<Rightarrow> NDArray_Container \<Rightarrow> bool" where
  "same_dims l r \<longleftrightarrow> list_all (\<lambda>i. shape l ! i = shape r ! i) [0..<nat (ndim l)]"

definition same_dtype :: "NDArray_Container \<Rightarrow> NDArray_Container \<Rightarrow> bool" where
  "same_dtype l r \<longleftrightarrow>
     code (dtype l) = code (dtype r) \<and> bits (dtype l) = bits (dtype r)
     \<and> lanes (dtype l) = lanes (dtype r)"

definition tensors_equal :: "tensor_ops \<Rightarrow> NDArray_Container \<Rightarrow> NDArray_Container \<Rightarrow> bool \<Rightarrow> bool" where
  "tensors_equal ops l r compare_data \<longleftrightarrow>
     ndim l = ndim r \<and> same_dims l r
     \<and> code (dtype l) = code (dtype r) \<and> bits (dtype l) = bits (dtype r)
     \<and> lanes (dtype l) = lanes (dtype r)
     \<and> (if compare_data
         then take (GetDataSize ops l) (data l) = take (GetDataSize ops l) (data r) else True)"

text \<open>
  What the comparison reads is there. The dimensions are read only when the ranks agree:
  then both shape arrays have that many entries. The buffers are read only by
  \<^verbatim>\<open>memcmp\<close>, which is reached when the data is compared and the ranks, all the
  dimensions and the data types agree: then both buffers hold the \<open>GetDataSize\<close> bytes
  that are compared.
\<close>

definition reaches_memcmp :: "NDArray_Container \<Rightarrow> NDArray_Container \<Rightarrow> bool \<Rightarrow> bool" where
  "reaches_memcmp l r compare_data \<longleftrightarrow>
     compare_data \<and> ndim l = ndim r \<and> same_dims l r \<and> same_dtype l r"

definition wf_tensors :: "tensor_ops \<Rightarrow> NDArray_Container \<Rightarrow> NDArray_Container \<Rightarrow> bool \<Rightarrow> bool" where
  "wf_tensors ops l r compare_data \<longleftrightarrow>
     (ndim l = ndim r \<longrightarrow> nat (ndim l) \<le> length (shape l) \<and> nat (ndim l) \<le> length (shape r))
     \<and> (reaches_memcmp l r compare_data \<longrightarrow>
          GetDataSize ops l \<le> length (data l) \<and> GetDataSize ops l \<le> length (data r))"

text \<open>
  Example tensors: one on another device at address 0, two on the CPU at 1 and 2, and a
  longer one on the CPU at 3.
\<close>

definition gpu_tensor :: NDArray_Container where
  "gpu_tensor = \<lparr>device_type = 2, ndim = 1, shape = [2], dtype = \<lparr>code = 2, bits = 8, lanes = 1\<rparr>,
                 data = [1, 2]\<rparr>"

definition cpu_tensor :: "byte list \<Rightarrow> NDArray_Container" where
  "cpu_tensor bs = \<lparr>device_type = kDLCPU, ndim = 1, shape = [2], dtype = \<lparr>code = 2, bits = 8, lanes = 1\<rparr>,
                    data = bs\<rparr>"

definition long_tensor :: NDArray_Container where
  "long_tensor = \<lparr>device_type = kDLCPU, ndim = 1, shape = [4], dtype = \<lparr>code = 2, bits = 8, lanes = 1\<rparr>,
                  data = [1, 2, 3, 4]\<rparr>"

definition example_ops :: tensor_ops where
  "example_ops =
     \<lparr>IsContiguous = (\<lambda>_. True),
      GetDataSize = (\<lambda>c. (foldr (\<lambda>d n. unat d * n) (shape c) 1 * unat (bits (dtype c))
                           * unat (lanes (dtype c)) + 7) div 8),
      shape_attr_key = (\<lambda>_ _. None)\<rparr>"

definition example_heap :: "obj \<Rightarrow> NDArray_Container" where
  "example_heap p =
     (if p = 0 then gpu_tensor else if p = 1 then cpu_tensor [1, 2]
      else if p = 2 then cpu_tensor [1, 3] else long_tensor)"

definition untraced :: SEqualReducer where
  "untraced = \<lparr>tracing_data = None, reducer_free_vars = False\<rparr>"

section \<open>Termination of the task loop\<close>

text \<open>
  A graph with a cycle: nodes of one type whose attribute \<open>next\<close> is the node itself. The
  reducer marks the node as a graph node and compares the \<open>next\<close> attributes of the two
  nodes.
\<close>

definition cyc_env :: env where
  "cyc_env =
     \<lparr>type_index = (\<lambda>_. 64), GetTypeKey = (\<lambda>_. ''Node''), kTVMFFIStaticObjectBegin = 64,
      fsequal_reduce = (\<lambda>t. if t = 64 then Some (\<lambda>self other free_vars.
         Do MarkGraphNode (\<lambda>_.
           Do (Equal_object (Some self) (Some other) (Some ''next'') (Some ''next''))
              (\<lambda>a. Return (a = A_bool True)))) else None)\<rparr>"

text \<open>
  The state of the task loop on that graph after \<open>n\<close> expansions: the task of the node on
  top, not yet expanded, above \<open>n\<close> copies of it that are expanded and marked.
\<close>

definition cyc_state :: "nat \<Rightarrow> Impl" where
  "cyc_state n =
     \<lparr>pending_tasks = [],
      task_stack = new_Task (Some 0) (Some 0) False None
        # replicate n ((new_Task (Some 0) (Some 0) False None)
                         \<lparr>children_expanded := True, graph_equal := True\<rparr>),
      allow_push_to_stack = True,
      equal_map_lhs = Map.empty, equal_map_rhs = Map.empty, first_mismatch = None\<rparr>"

text \<open>
  Acyclic graphs. A rank gives every node a number; a reducer run on a node of rank \<open>n\<close>
  respects the rank when the left operand of every object comparison it asks for is null
  or of a rank below \<open>n\<close>, whatever the answers it gets.
\<close>

definition ref_below :: "(obj \<Rightarrow> nat) \<Rightarrow> nat \<Rightarrow> ObjectRef \<Rightarrow> bool" where
  "ref_below rank n a = (case a of None \<Rightarrow> True | Some x \<Rightarrow> rank x < n)"

definition call_below :: "(obj \<Rightarrow> nat) \<Rightarrow> nat \<Rightarrow> call \<Rightarrow> bool" where
  "call_below rank n c =
     (case c of
        Equal_object a b lkey rkey \<Rightarrow> ref_below rank n a
      | Equal_object_paths a b p \<Rightarrow> ref_below rank n a
      | DefEqual a b lkey rkey \<Rightarrow> ref_below rank n a
      | AnyEqual x y paths \<Rightarrow> ref_below rank n (Any_cast_ObjectRef x)
      | _ \<Rightarrow> True)"

primrec calls_below :: "(obj \<Rightarrow> nat) \<Rightarrow> nat \<Rightarrow> prog \<Rightarrow> bool" where
  "calls_below rank n (Return v) = True"
| "calls_below rank n (Abort e) = True"
| "calls_below rank n (Do c k) = (call_below rank n c \<and> (\<forall>a. calls_below rank n (k a)))"

text \<open>
  The left graph is acyclic when every registered reducer respects the rank on every node
  of its type.
\<close>

definition acyclic_graph :: "(obj \<Rightarrow> nat) \<Rightarrow> env \<Rightarrow> bool" where
  "acyclic_graph rank E \<longleftrightarrow>
     (\<forall>x y free_vars f. fsequal_reduce E (type_index E x) = Some f
        \<longrightarrow> calls_below rank (rank x) (f x y free_vars))"

text \<open>
  The weight of a task: a force-fail task weighs nothing; a task whose children have been
  expanded weighs one less than the same task before the expansion, and more than every
  task on a node of smaller rank.
\<close>

definition task_weight :: "(obj \<Rightarrow> nat) \<Rightarrow> Task \<Rightarrow> nat" where
  "task_weight rank t =
     (if force_fail t then 0
      else 2 * (case lhs t of None \<Rightarrow> 0 | Some x \<Rightarrow> rank x)
           + (if children_expanded t then 1 else 2))"

text \<open>A rank for the example graph \<open>wrap_env\<close>: node 1 is above its inner node.\<close>

definition wrap_rank :: "obj \<Rightarrow> nat" where
  "wrap_rank x = (if x = 1 then 1 else 0)"

text \<open>
  What a reducer that respects the rank on a node of rank \<open>n\<close> does to the engine: it
  appends tasks of weight at most \<open>2 * n\<close> to the pending tasks and leaves the weights of
  the stack as they are.
\<close>

definition below_frame :: "(obj \<Rightarrow> nat) \<Rightarrow> nat \<Rightarrow> Impl \<Rightarrow> Impl \<Rightarrow> bool" where
  "below_frame rank n s s' \<longleftrightarrow>
     (\<exists>ts. pending_tasks s' = pending_tasks s @ ts \<and> list_all (\<lambda>t. task_weight rank t \<le> 2 * n) ts)
     \<and> map (task_weight rank) (task_stack s') = map (task_weight rank) (task_stack s)"

section \<open>Invocations of the reducers\<close>

text \<open>
  Counting the invocations of the per-type reducers. The iteration of the task loop on
  the task \<open>entry\<close> in state \<open>s\<close> calls a reducer when the task is to be expanded, no
  task is pending, the operands are defined and of one type, neither map has an entry for
  them, the paths are there when they are needed and a reducer is registered for the type.
\<close>

definition invokes_reducer :: "env \<Rightarrow> config \<Rightarrow> Task \<Rightarrow> Impl \<Rightarrow> bool" where
  "invokes_reducer E cfg entry s \<longleftrightarrow>
     \<not> force_fail entry \<and> \<not> children_expanded entry \<and> pending_tasks s = []
     \<and> (case (lhs entry, rhs entry) of
          (Some x, Some y) \<Rightarrow>
            type_index E x = type_index E y
            \<and> equal_map_lhs s (lhs entry) = None \<and> equal_map_rhs s (rhs entry) = None
            \<and> (IsPathTracingEnabled_impl cfg \<longrightarrow> current_paths entry \<noteq> None)
            \<and> fsequal_reduce E (type_index E x) \<noteq> None
        | _ \<Rightarrow> False)"

text \<open>
  \<open>RunTasks_invocations E cfg s k s'\<close>: the task loop goes from the state \<open>s\<close> to the state
  \<open>s'\<close>, both at the head of an iteration, calling reducers \<open>k\<close> times on the way.
\<close>

inductive RunTasks_invocations :: "env \<Rightarrow> config \<Rightarrow> Impl \<Rightarrow> nat \<Rightarrow> Impl \<Rightarrow> bool" for E cfg where
  none: "RunTasks_invocations E cfg s 0 s"
| step: "task_stack s = entry # rest \<Longrightarrow> RunTasks_step E cfg entry rest s = Inr s1
         \<Longrightarrow> RunTasks_invocations E cfg s1 k s2
         \<Longrightarrow> RunTasks_invocations E cfg s (k + (if invokes_reducer E cfg entry s then 1 else 0)) s2"

text \<open>
  An acyclic graph with shared nodes: the nodes \<open>0, \<dots>, n\<close>, where both attributes
  \<open>left\<close> and \<open>right\<close> of a node below \<open>n\<close> are the next node, and node \<open>n\<close> has no
  children. The reducer compares the two pairs of children and does not mark the node.
\<close>

definition chain_env :: "nat \<Rightarrow> env" where
  "chain_env n =
     \<lparr>type_index = (\<lambda>_. 64), GetTypeKey = (\<lambda>_. ''Node''), kTVMFFIStaticObjectBegin = 64,
      fsequal_reduce = (\<lambda>t. Some (\<lambda>self other free_vars.
         if self < n then
           Do (Equal_object (Some (Suc self)) (Some (Suc other)) (Some ''left'') (Some ''left''))
              (\<lambda>a. if a = A_bool True
                   then Do (Equal_object (Some (Suc self)) (Some (Suc other))
                              (Some ''right'') (Some ''right''))
                           (\<lambda>b. Return (b = A_bool True))
                   else Return False)
         else Return True))\<rparr>"

text \<open>The task of node \<open>i\<close> against itself, and the state of the loop with a given stack.\<close>

definition chain_task :: "nat \<Rightarrow> Task" where
  "chain_task i = new_Task (Some i) (Some i) False None"

definition chain_state :: "Task list \<Rightarrow> Impl" where
  "chain_state ts =
     \<lparr>pending_tasks = [], task_stack = ts, allow_push_to_stack = True,
      equal_map_lhs = Map.empty, equal_map_rhs = Map.empty, first_mismatch = None\<rparr>"

section \<open>Fail deferral\<close>

text \<open>
  The contract of a reducer, from its definition as a callback that reduces the equality
  of two nodes to the equality of their children. A program fails when every return of it
  is false.
\<close>

primrec fails :: "prog \<Rightarrow> bool" where
  "fails (Return v) = (\<not> v)"
| "fails (Abort e) = True"
| "fails (Do c k) = (\<forall>a. fails (k a))"

text \<open>The calls that compare two objects through the engine.\<close>

definition object_call :: "call \<Rightarrow> bool" where
  "object_call c =
     (case c of
        Equal_object a b lkey rkey \<Rightarrow> True
      | Equal_object_paths a b p \<Rightarrow> True
      | DefEqual a b lkey rkey \<Rightarrow> True
      | AnyEqual x y paths \<Rightarrow> True
      | _ \<Rightarrow> False)"

text \<open>
  A reducer is conjunctive when it returns false once a comparison of two objects has
  answered false, and never asks the handler whether deferral is enabled.
\<close>

primrec conjunctive :: "prog \<Rightarrow> bool" where
  "conjunctive (Return v) = True"
| "conjunctive (Abort e) = True"
| "conjunctive (Do c k) =
     (c \<noteq> IsFailDeferralEnabled
      \<and> (object_call c \<longrightarrow> fails (k (A_bool False)))
      \<and> (\<forall>a. conjunctive (k a)))"

definition conjunctive_reducers :: "env \<Rightarrow> bool" where
  "conjunctive_reducers E \<longleftrightarrow>
     (\<forall>t f x y free_vars. fsequal_reduce E t = Some f \<longrightarrow> conjunctive (f x y free_vars))"

text \<open>Whether a list of tasks holds a force-fail task.\<close>

definition has_force_fail :: "Task list \<Rightarrow> bool" where
  "has_force_fail ts = list_ex force_fail ts"

text \<open>
  How the outcome of a comparison with deferral (\<open>rd\<close>) relates to the outcome without
  (\<open>rn\<close>): they are the same, or the first is true with a force-fail task among the
  pending tasks while the second is not true.
\<close>

definition deferred :: "(error + bool \<times> Impl) \<Rightarrow> (error + bool \<times> Impl) \<Rightarrow> bool" where
  "deferred rd rn \<longleftrightarrow>
     rd = rn
     \<or> ((\<exists>s'. rd = Inr (True, s') \<and> has_force_fail (pending_tasks s'))
        \<and> (\<forall>s'. rn \<noteq> Inr (True, s')))"


text \<open>
  Example: every node \<open>n\<close> has one child, the node \<open>n + 4\<close>; node 5 is of another type than
  the other nodes. The reducer compares the children of the two nodes.
\<close>

definition child_env :: env where
  "child_env =
     \<lparr>type_index = (\<lambda>x. if x = 5 then 65 else 64), GetTypeKey = (\<lambda>_. ''Node''), kTVMFFIStaticObjectBegin = 64,
      fsequal_reduce = (\<lambda>t. Some (\<lambda>self other free_vars.
         Do (Equal_object (Some (self + 4)) (Some (other + 4)) (Some ''child'') (Some ''child''))
            (\<lambda>a. Return (a = A_bool True))))\<rparr>"

text \<open>
  The states in which the comparison of node 1 with node 2 ends, with deferral and
  without, under path tracing.
\<close>

definition child_paths :: ObjectPathPair where
  "child_paths = \<lparr>lhs_path = [Attr ''child''], rhs_path = [Attr ''child'']\<rparr>"

definition deferred_final :: Impl where
  "deferred_final =
     \<lparr>pending_tasks = [],
      task_stack = [ForceFail_Task child_paths,
                    (new_Task (Some 1) (Some 2) False (Some root_pair))\<lparr>children_expanded := True\<rparr>],
      allow_push_to_stack = True,
      equal_map_lhs = Map.empty, equal_map_rhs = Map.empty, first_mismatch = Some child_paths\<rparr>"



text \<open>
  Example with conjunctive reducers: every node \<open>n\<close> below 10 has two children, the node
  \<open>n + 10\<close>, of a type without a registered reducer, and the node \<open>n + 4\<close>; node 5 is of
  another type than node 6. The reducer compares the first children, then the second ones.
\<close>

definition abort_env :: env where
  "abort_env =
     \<lparr>type_index = (\<lambda>x. if x = 5 then 65 else if 10 \<le> x then 66 else 64),
      GetTypeKey = (\<lambda>x. if 10 \<le> x then ''Leaf'' else ''Node''), kTVMFFIStaticObjectBegin = 64,
      fsequal_reduce = (\<lambda>t. if t = 66 then None else Some (\<lambda>self other free_vars.
         Do (Equal_object (Some (self + 10)) (Some (other + 10)) (Some ''first'') (Some ''first''))
            (\<lambda>a. if a = A_bool True
                 then Do (Equal_object (Some (self + 4)) (Some (other + 4))
                            (Some ''second'') (Some ''second''))
                         (\<lambda>b. Return (b = A_bool True))
                 else Return False)))\<rparr>"

section \<open>The first mismatch\<close>

text \<open>
  The contract of a reducer towards the recorded mismatch. The calls that compare two
  values, objects or leaves, and the call that records a mismatch.
\<close>

definition comparison :: "call \<Rightarrow> bool" where
  "comparison c =
     (case c of
        Equal_object a b lkey rkey \<Rightarrow> True
      | Equal_object_paths a b p \<Rightarrow> True
      | DefEqual a b lkey rkey \<Rightarrow> True
      | Equal_value v paths lkey rkey \<Rightarrow> True
      | AnyEqual x y paths \<Rightarrow> True
      | EnumAttrsEqual a b paths \<Rightarrow> True
      | _ \<Rightarrow> False)"

definition records_mismatch :: "call \<Rightarrow> bool" where
  "records_mismatch c = (case c of RecordMismatchPaths p \<Rightarrow> True | _ \<Rightarrow> False)"

text \<open>
  A reducer is strict when it returns false once a comparison has answered false and
  once it has recorded a mismatch itself.
\<close>

primrec strict :: "prog \<Rightarrow> bool" where
  "strict (Return v) = True"
| "strict (Abort e) = True"
| "strict (Do c k) =
     ((comparison c \<longrightarrow> fails (k (A_bool False)))
      \<and> (records_mismatch c \<longrightarrow> fails (k A_unit))
      \<and> (\<forall>a. strict (k a)))"

definition strict_reducers :: "env \<Rightarrow> bool" where
  "strict_reducers E \<longleftrightarrow>
     (\<forall>t f x y free_vars. fsequal_reduce E t = Some f \<longrightarrow> strict (f x y free_vars))"

text \<open>
  Under path tracing every task carries its paths: what a reducer does to the engine then
  is to append tasks with defined paths to the pending tasks, leaving the paths of the
  tasks on the stack as they are.
\<close>

definition traced :: "Task list \<Rightarrow> bool" where
  "traced ts = list_all (\<lambda>t. current_paths t \<noteq> None) ts"

definition traced_frame :: "Impl \<Rightarrow> Impl \<Rightarrow> bool" where
  "traced_frame s s' \<longleftrightarrow>
     (\<exists>ts. pending_tasks s' = pending_tasks s @ ts \<and> traced ts)
     \<and> map current_paths (task_stack s') = map current_paths (task_stack s)"

text \<open>
  Example of a reducer that is not strict: it compares the leaves \<open>a\<close> of the two nodes
  (nodes are told apart by their address) and, when they differ, the leaves \<open>b\<close>, which
  are equal.
\<close>

definition disj_env :: env where
  "disj_env =
     \<lparr>type_index = (\<lambda>_. 64), GetTypeKey = (\<lambda>_. ''Node''), kTVMFFIStaticObjectBegin = 64,
      fsequal_reduce = (\<lambda>t. Some (\<lambda>self other free_vars.
         Do (Equal_value (self = other) None (Some ''a'') (Some ''a''))
            (\<lambda>a. if a = A_bool True then Return True
                 else Do (Equal_value True None (Some ''b'') (Some ''b''))
                         (\<lambda>b. Return (b = A_bool True)))))\<rparr>"

section \<open>Verification\<close>

section \<open>Save and load are inverse\<close>

lemma length_le_bytes [simp]: "length (le_bytes n w) = n"
  by (induction n arbitrary: w) auto

lemma le_word_le_bytes: "le_word (le_bytes n w) = take_bit (8 * n) w"
proof (induction n arbitrary: w)
  case 0
  then show ?case by simp
next
  case (Suc n)
  show ?case
    apply (simp add: Suc)
    apply (rule bit_word_eqI)
    apply (auto simp add: bit_simps)
    done
qed

lemma le_word_le_bytes_64 [simp]: "le_word (le_bytes 8 (w :: 64 word)) = w"
  by (simp add: le_word_le_bytes take_bit_word_eq_self)

lemma le_word_le_bytes_32 [simp]: "le_word (le_bytes 4 (w :: 32 word)) = w"
  by (simp add: le_word_le_bytes take_bit_word_eq_self)

lemma le_word_le_bytes_16 [simp]: "le_word (le_bytes 2 (w :: 16 word)) = w"
  by (simp add: le_word_le_bytes take_bit_word_eq_self)

lemma char_of_byte_of_char [simp]: "char_of_byte (byte_of_char c) = c"
  by (simp add: char_of_byte_def byte_of_char_def unat_of_nat)

lemma Stream_Read_full:
  "length bs = n \<Longrightarrow> length old = n \<Longrightarrow> Stream_Read n old (bs @ rest) = (bs, n, rest)"
  by (simp add: Stream_Read_def)

lemma Read_u64_Write_u64 [simp]: "Read_u64 old (Write_u64 w @ rest) = (True, w, rest)"
  by (simp add: Read_u64_def Write_u64_def Stream_Read_full)

lemma Read_u64_ok_Write_u64 [simp]: "Read_u64_ok (Write_u64 w @ rest) = Some (w, rest)"
  by (simp add: Read_u64_ok_def)

lemma Read_i32_ok_Write_i32 [simp]: "Read_i32_ok (Write_i32 w @ rest) = Some (w, rest)"
  by (simp add: Read_i32_ok_def Read_i32_def Write_i32_def Stream_Read_full)

lemma Read_char_Cons [simp]: "Read_char old (b # rest) = (True, b, rest)"
  by (simp add: Read_char_def Stream_Read_def)

lemma unat_len64: "n < 2 ^ 64 \<Longrightarrow> unat (word_of_nat n :: 64 word) = n"
  by (simp add: unat_of_nat)

lemma Read_bytes_Write_bytes:
  "length bs < 2 ^ 64 \<Longrightarrow> Read_bytes old (Write_bytes bs @ rest) = (True, bs, rest)"
  by (cases "bs = []") (auto simp add: Read_bytes_def Write_bytes_def unat_len64 Stream_Read_full
      word_of_nat_eq_0_iff dest!: )

lemma Read_string_Write_string:
  "length s < 2 ^ 64 \<Longrightarrow> Read_string (Write_string s @ rest) = Some (s, rest)"
  by (simp add: Read_string_def Write_string_def Read_bytes_Write_bytes comp_def)

lemma Read_items_roundtrip:
  "(\<And>x rest. x \<in> set xs \<Longrightarrow> rd (wr x @ rest) = Some (x, rest))
   \<Longrightarrow> Read_items rd (length xs) (concat (map wr xs) @ rest) = Some (xs, rest)"
  by (induction xs arbitrary: rest) auto

lemma Read_vector_Write_vector:
  "length xs < 2 ^ 64
   \<Longrightarrow> (\<And>x rest. x \<in> set xs \<Longrightarrow> rd (wr x @ rest) = Some (x, rest))
   \<Longrightarrow> Read_vector rd (Write_vector wr xs @ rest) = Some (xs, rest)"
  by (simp add: Read_vector_def Write_vector_def unat_len64 Read_items_roundtrip)

lemma VMFuncInfo_roundtrip:
  "wf_FuncInfo f \<Longrightarrow> VMFuncInfo_Load (VMFuncInfo_Save f @ rest) = Some (f, rest)"
  by (simp add: wf_FuncInfo_def VMFuncInfo_Load_def VMFuncInfo_Save_def
      Read_string_Write_string Read_vector_Write_vector)

lemma Read_shape_data_roundtrip:
  "Read_shape_data (length vs) (concat (map Write_u64 vs) @ rest) = (vs, rest)"
  by (induction vs) auto

lemma Read_str_data_roundtrip:
  "Read_str_data (length bs) (bs @ rest) = (bs, rest)"
  by (induction bs) auto

lemma Read_str_data_chars:
  "Read_str_data (length s) (map byte_of_char s @ rest) = (map byte_of_char s, rest)"
  using Read_str_data_roundtrip [of "map byte_of_char s" rest] by simp

lemma Read_DLDataType_roundtrip:
  "Read_DLDataType old (Write_DLDataType dt @ rest) = (True, dt, rest)"
  by (simp add: Read_DLDataType_def Write_DLDataType_def Stream_Read_full)

lemma Stream_Read_Write_i32:
  "Stream_Read 4 (le_bytes 4 (old :: 32 word)) (Write_i32 w @ rest) = (le_bytes 4 w, 4, rest)"
  by (simp add: Write_i32_def Stream_Read_full)

lemma LoadConstants_step:
  assumes "distinct_tags ti" "wf_constant c" "tensor_ok codec c"
  shows "LoadConstants ti codec u (Suc n) i dt0 (SaveConstant ti codec c @ rest) cs
         = LoadConstants ti codec u n (Suc i) (case c of DataType dt \<Rightarrow> dt | _ \<Rightarrow> dt0) rest (cs @ [c])"
  using assms
  by (cases c)
     (auto simp add: distinct_tags_def tensor_ok_def Stream_Read_Write_i32 unat_len64
        Read_shape_data_roundtrip Read_str_data_chars Read_DLDataType_roundtrip comp_def Let_def)

lemma LoadConstants_roundtrip:
  assumes "distinct_tags ti"
  shows "(\<And>c. c \<in> set xs \<Longrightarrow> wf_constant c \<and> tensor_ok codec c)
   \<Longrightarrow> LoadConstants ti codec u (length xs) i dt0
         (concat (map (SaveConstant ti codec) xs) @ rest) cs = Inr (cs @ xs, rest)"
proof (induction xs arbitrary: i dt0 cs)
  case Nil
  then show ?case by simp
next
  case (Cons c xs)
  have c: "wf_constant c" "tensor_ok codec c" using Cons.prems by auto
  show ?case
    using Cons.IH [of "Suc i" _ "cs @ [c]"] Cons.prems
    by (simp add: LoadConstants_step [OF assms c] del: LoadConstants.simps)
qed

lemma setup_func_map_distinct:
  "distinct (map name ft)
   \<Longrightarrow> setup_func_map ft i m = m ++ map_of (zip (map name ft) [i..<i + length ft])"
proof (induction ft arbitrary: i m)
  case Nil
  then show ?case by simp
next
  case (Cons f fs)
  define ys where "ys = zip (map name fs) [Suc i..<Suc i + length fs]"
  have notin: "name f \<notin> set (map name fs)" and d: "distinct (map name fs)"
    using Cons.prems by auto
  have none: "map_of ys (name f) = None"
    using notin by (auto simp add: ys_def map_of_eq_None_iff dest: set_zip_leftD)
  have upt: "[i..<i + length (f # fs)] = i # [Suc i..<Suc i + length fs]"
    using upt_conv_Cons [of i "i + length (f # fs)"] by (simp del: upt_Suc)
  have "setup_func_map (f # fs) i m = (m(name f \<mapsto> i)) ++ map_of ys"
    unfolding ys_def setup_func_map.simps by (rule Cons.IH [OF d])
  also have "\<dots> = m ++ (map_of ys)(name f \<mapsto> i)"
    by (rule ext) (use none in \<open>auto simp add: map_add_def split: option.splits\<close>)
  also have "(map_of ys)(name f \<mapsto> i) = map_of (zip (map name (f # fs)) [i..<i + length (f # fs)])"
    unfolding upt by (simp add: ys_def del: upt_Suc)
  finally show ?case .
qed

lemma setup_func_map_eq:
  "distinct (map name ft) \<Longrightarrow> setup_func_map ft 0 Map.empty = func_map_of ft"
  by (simp add: setup_func_map_distinct func_map_of_def)

lemma LoadHeader_SaveHeader:
  "length VM_VERSION < 2 ^ 64 \<Longrightarrow> LoadHeader VM_VERSION (SaveHeader VM_VERSION @ rest) = Inr rest"
  by (simp add: LoadHeader_def SaveHeader_def Read_string_Write_string)

lemma LoadGlobalSection_roundtrip:
  assumes "length (func_table E) < 2 ^ 64" "\<forall>f \<in> set (func_table E). wf_FuncInfo f"
  shows "LoadGlobalSection exec (SaveGlobalSection E @ rest)
         = Inr (exec\<lparr>func_table := func_table E,
                      func_map := setup_func_map (func_table E) 0 (func_map exec)\<rparr>, rest)"
  using assms
  by (simp add: LoadGlobalSection_def SaveGlobalSection_def Read_vector_Write_vector
      VMFuncInfo_roundtrip)

lemma Stream_Read_Write_u64:
  "Stream_Read 8 (le_bytes 8 (old :: 64 word)) (Write_u64 w @ rest) = (le_bytes 8 w, 8, rest)"
  by (simp add: Write_u64_def Stream_Read_full)

lemma LoadConstantSection_roundtrip:
  assumes "distinct_tags ti" "length (constants E) < 2 ^ 64"
    "\<forall>c \<in> set (constants E). wf_constant c"
    "\<forall>c \<in> set (constants E). tensor_ok codec c"
  shows "LoadConstantSection ti codec u exec (SaveConstantSection ti codec E @ rest)
         = Inr (exec\<lparr>constants := constants exec @ constants E\<rparr>, rest)"
  using assms
  by (simp add: LoadConstantSection_def SaveConstantSection_def Stream_Read_Write_u64
      unat_len64 LoadConstants_roundtrip)

lemma LoadCodeSection_roundtrip:
  assumes "length (instr_offset E) < 2 ^ 64" "length (instr_data E) < 2 ^ 64"
  shows "LoadCodeSection exec (SaveCodeSection E @ rest)
         = Inr (exec\<lparr>instr_offset := instr_offset E, instr_data := instr_data E\<rparr>, rest)"
  using assms
  by (simp add: LoadCodeSection_def SaveCodeSection_def Read_vector_Write_vector)

text \<open>
  Claim C1. For every well-formed executable \<open>E\<close>, loading the blob written by
  \<open>SaveToBinary\<close> returns \<open>E\<close>: the same constants, function table, instruction
  offsets and instruction data, and the function map that the loader rebuilds from the
  function table is the one of \<open>E\<close>. Well-formed means that every length fits the
  64-bit length prefix, that the names of the function table are unique and that the
  function map sends each name to its index. The type tags are pairwise different and
  the external tensor serializer reads back what it wrote.
\<close>

theorem SaveToBinary_LoadFromBinary:
  assumes wf: "well_formed E"
    and tags: "distinct_tags ti"
    and nd: "tensor_roundtrip codec E"
    and ver: "length VM_VERSION < 2 ^ 64"
    and size: "blob_size ti codec VM_VERSION E < 2 ^ 64"
  shows "LoadFromBinary ti codec VM_VERSION u (SaveToBinary ti codec VM_VERSION E @ rest) = Inr E"
proof -
  have ft: "length (func_table E) < 2 ^ 64" "\<forall>f \<in> set (func_table E). wf_FuncInfo f"
    and names: "distinct (map name (func_table E))"
    and fm: "func_map E = func_map_of (func_table E)"
    and cs: "length (constants E) < 2 ^ 64" "\<forall>c \<in> set (constants E). wf_constant c"
    and code: "length (instr_offset E) < 2 ^ 64" "length (instr_data E) < 2 ^ 64"
    using wf by (simp_all add: well_formed_def)
  have nd': "\<forall>c \<in> set (constants E). tensor_ok codec c"
    using nd by (simp add: tensor_roundtrip_def)
  have outer: "Read_bytes [] (SaveToBinary ti codec VM_VERSION E @ rest)
      = (True, SaveHeader VM_VERSION @ SaveGlobalSection E
               @ SaveConstantSection ti codec E @ SaveCodeSection E, rest)"
    unfolding SaveToBinary_def
    by (rule Read_bytes_Write_bytes) (use size in \<open>simp add: blob_size_def\<close>)
  have code_nil: "LoadCodeSection exec (SaveCodeSection E)
         = Inr (exec\<lparr>instr_offset := instr_offset E, instr_data := instr_data E\<rparr>, [])" for exec :: "'a VMExecutable"
    using LoadCodeSection_roundtrip [OF code, of exec "[]"] by simp
  show ?thesis
    unfolding LoadFromBinary_def outer
    by (simp add: LoadHeader_SaveHeader [OF ver] LoadGlobalSection_roundtrip [OF ft]
        LoadConstantSection_roundtrip [OF tags cs nd'] code_nil
        new_VMExecutable_def setup_func_map_eq [OF names] fm)
qed

lemma S2_blob_size: "blob_size spec_TypeIndex byte_codec ''0.14'' S2_exec = 274"
  by (simp add: blob_size_def S2_exec_def SaveHeader_def SaveGlobalSection_def
        SaveConstantSection_def SaveCodeSection_def Write_vector_def Write_string_def
        Write_bytes_def Write_u64_def Write_i32_def VMFuncInfo_Save_def Write_DLDataType_def
        byte_codec_def)

theorem SaveToBinary_LoadFromBinary_witness:
  "well_formed S2_exec \<and> distinct_tags spec_TypeIndex
   \<and> tensor_roundtrip byte_codec S2_exec
   \<and> length ''0.14'' < (2::nat) ^ 64
   \<and> blob_size spec_TypeIndex byte_codec ''0.14'' S2_exec < 2 ^ 64
   \<and> LoadFromBinary spec_TypeIndex byte_codec ''0.14'' zero_uninit
        (SaveToBinary spec_TypeIndex byte_codec ''0.14'' S2_exec) = Inr S2_exec"
proof -
  have wf: "well_formed S2_exec"
    by (auto simp add: well_formed_def S2_exec_def wf_FuncInfo_def func_map_of_def fun_eq_iff)
  have tags: "distinct_tags spec_TypeIndex"
    by (simp add: distinct_tags_def spec_TypeIndex_def)
  have nd: "tensor_roundtrip byte_codec S2_exec"
    by (simp add: S2_exec_def tensor_roundtrip_def tensor_ok_def byte_codec_def)
  have ver: "length ''0.14'' < (2::nat) ^ 64" by simp
  have size: "blob_size spec_TypeIndex byte_codec ''0.14'' S2_exec < 2 ^ 64"
    by (simp add: S2_blob_size)
  show ?thesis
    using SaveToBinary_LoadFromBinary [OF wf tags nd ver size, of zero_uninit "[]"] wf tags nd size
    by simp
qed

section \<open>Format errors of the loader\<close>

lemma Read_u64_Nil: "Read_u64 old [] = (False, old, [])"
  by (simp add: Read_u64_def Stream_Read_def)

lemma Read_u64_ok_Nil: "Read_u64_ok [] = None"
  by (simp add: Read_u64_ok_def Read_u64_Nil)

lemma LoadConstantSection_truncated_int:
  "LoadConstantSection spec_TypeIndex codec u exec
     (Write_u64 1 @ Write_i32 (kTVMFFIInt spec_TypeIndex))
   = Inr (exec\<lparr>constants := constants exec @ [Int64 (u_value (u_iter u 0))]\<rparr>, [])"
proof -
  have tag: "Stream_Read 4 (le_bytes 4 (old :: 32 word)) (Write_i32 (kTVMFFIInt spec_TypeIndex))
             = (le_bytes 4 (kTVMFFIInt spec_TypeIndex), 4, [])" for old
    using Stream_Read_Write_i32 [of old "kTVMFFIInt spec_TypeIndex" "[]"] by simp
  have "distinct_tags spec_TypeIndex"
    by (simp add: distinct_tags_def spec_TypeIndex_def)
  then show ?thesis
    by (auto simp add: LoadConstantSection_def Stream_Read_Write_u64 tag Let_def Read_u64_Nil
        distinct_tags_def)
qed

text \<open>
  Claim C2 says that a truncated section makes the loader fail with a diagnostic that names
  the section. The reads of the payload of a constant are not tested: on the blob that ends
  right after the tag of an integer constant, whatever the indeterminate locals \<open>u\<close>
  hold and whatever the tensor reader is, the constant section is loaded (an
  indeterminate integer is appended to the pool) and the failure is reported by the next
  tested read, which names the section of the instruction offsets.
\<close>

theorem LoadFromBinary_truncated_int:
  "LoadFromBinary spec_TypeIndex codec ''0.14'' u truncated_int_blob
   = Inl (STREAM_CHECK ''strm->Read(&(this->instr_offset))'' ''instr offset'')"
proof -
  let ?inner = "SaveHeader ''0.14'' @ Write_vector VMFuncInfo_Save []
                  @ Write_u64 1 @ Write_i32 (kTVMFFIInt spec_TypeIndex)"
  have len: "length ?inner < 2 ^ 64"
    by (simp add: SaveHeader_def Write_vector_def Write_string_def Write_bytes_def
        Write_u64_def Write_i32_def)
  have outer: "Read_bytes [] truncated_int_blob = (True, ?inner, [])"
    using Read_bytes_Write_bytes [OF len, of "[]" "[]"] by (simp add: truncated_int_blob_def)
  have hdr: "LoadHeader ''0.14'' ?inner
             = Inr (Write_vector VMFuncInfo_Save [] @ Write_u64 1 @ Write_i32 (kTVMFFIInt spec_TypeIndex))"
    by (rule LoadHeader_SaveHeader) simp
  have rv: "Read_vector VMFuncInfo_Load (Write_vector VMFuncInfo_Save [] @ r) = Some ([], r)" for r
    by (rule Read_vector_Write_vector) simp_all
  have glob: "LoadGlobalSection new_VMExecutable
                (Write_vector VMFuncInfo_Save [] @ Write_u64 1 @ Write_i32 (kTVMFFIInt spec_TypeIndex))
              = Inr (new_VMExecutable, Write_u64 1 @ Write_i32 (kTVMFFIInt spec_TypeIndex))"
    by (simp add: LoadGlobalSection_def rv new_VMExecutable_def)
  have code: "LoadCodeSection exec [] = Inl (STREAM_CHECK ''strm->Read(&(this->instr_offset))'' ''instr offset'')" for exec :: "'a VMExecutable"
    by (simp add: LoadCodeSection_def Read_vector_def Read_u64_ok_Nil)
  show ?thesis
    by (simp add: LoadFromBinary_def outer hdr glob LoadConstantSection_truncated_int code)
qed

section \<open>Disassembly\<close>

lemma starts_with_iff: "starts_with s p \<longleftrightarrow> (\<exists>suf. s = p @ suf)"
  by (induction s p rule: starts_with.induct) auto

lemma contains_iff: "contains s sub \<longleftrightarrow> (\<exists>pre suf. s = pre @ sub @ suf)"
proof (induction s)
  case Nil
  then show ?case by auto
next
  case (Cons c s)
  show ?case
    by (auto simp add: Cons starts_with_iff Cons_eq_append_conv simp del: starts_with.simps)
qed

lemma AsText_S1_exec: "AsText S1_exec = Inr S1_text"
  by code_simp

text \<open>
  Claim C3, as amended. For the executable of scenario S1 (one function \<open>main\<close> with
  the instructions call f0 in:%0,i3 dst:%1; goto 1; ret %1, no constants) the text returned
  by \<open>AsText\<close> is \<open>S1_text\<close>; it contains \<open>@main:\<close>, \<open>call\<close> and the return
  instruction as it is printed, the mnemonic padded to six columns: \<open>ret\<close>, three blanks,
  \<open>%1\<close>.
\<close>

theorem AsText_S1:
  "AsText S1_exec = Inr S1_text \<and> contains S1_text ''@main:'' \<and> contains S1_text ''call''
   \<and> contains S1_text ''ret   %1''"
  by code_simp

text \<open>
  Claim C3 as stated fails: the text does not contain \<open>ret %1\<close> with a single blank.
\<close>

theorem AsText_S1_ret_counterexample:
  "\<not> (\<exists>txt. AsText S1_exec = Inr txt \<and> contains txt ''@main:'' \<and> contains txt ''call''
        \<and> contains txt ''ret %1'')"
proof -
  have "\<not> contains S1_text ''ret %1''"
    by code_simp
  then show ?thesis
    by (simp add: AsText_S1_exec)
qed

lemma AsPython_funcs_declared:
  "list_all declared_kind fs \<Longrightarrow> AsPython_funcs exec fs = Inr []"
  by (induction fs) (auto simp add: declared_kind_def)

lemma AsPython_funcs_unknown:
  "list_ex unknown_kind fs \<Longrightarrow> \<exists>e. AsPython_funcs exec fs = Inl e"
  by (induction fs) (auto simp add: unknown_kind_def split: sum.splits)

text \<open>
  Claim C4, as amended. \<open>AsPython\<close> returns only the preamble line when every entry of
  the function table is a packed function or a VM TIR function; when some entry has a kind
  that is none of the three, \<open>AsPython\<close> does not return a text: it aborts (at that entry,
  by the check that the kind is \<open>kVMFunc\<close>, unless an earlier entry already aborted).
\<close>

theorem AsPython_kinds:
  "(list_all declared_kind (func_table exec) \<longrightarrow> AsPython exec = Inr (''ib = rx.Builder()'' @ newline))
   \<and> (list_ex unknown_kind (func_table exec) \<longrightarrow> (\<exists>e. AsPython exec = Inl e))"
proof (intro conjI impI)
  assume "list_all declared_kind (func_table exec)"
  then show "AsPython exec = Inr (''ib = rx.Builder()'' @ newline)"
    by (simp add: AsPython_def AsPython_funcs_declared)
next
  assume "list_ex unknown_kind (func_table exec)"
  then obtain e where "AsPython_funcs exec (func_table exec) = Inl e"
    using AsPython_funcs_unknown by blast
  then show "\<exists>e. AsPython exec = Inl e"
    by (simp add: AsPython_def)
qed

theorem AsPython_kinds_witness:
  "list_all declared_kind (func_table packed_only_exec)
   \<and> AsPython packed_only_exec = Inr (''ib = rx.Builder()'' @ newline)
   \<and> list_ex unknown_kind (func_table unknown_kind_exec)
   \<and> (\<exists>e. AsPython unknown_kind_exec = Inl e)"
proof -
  have a: "list_all declared_kind (func_table packed_only_exec)"
    by (simp add: packed_only_exec_def declared_kind_def)
  have b: "list_ex unknown_kind (func_table unknown_kind_exec)"
    by (simp add: unknown_kind_exec_def unknown_kind_def kPackedFunc_def kVMTIRFunc_def kVMFunc_def)
  show ?thesis
    using AsPython_kinds [of packed_only_exec] AsPython_kinds [of unknown_kind_exec] a b
    by blast
qed

text \<open>
  Claim C4 as stated fails: an entry whose kind is none of the three is not skipped, the
  check on the kind aborts the call.
\<close>

theorem AsPython_unknown_kind_counterexample:
  "AsPython unknown_kind_exec = Inl (Check_failed ''gfunc.kind == VMFuncInfo::FuncKind::kVMFunc'' [])"
  by (simp add: AsPython_def unknown_kind_exec_def kPackedFunc_def kVMTIRFunc_def kVMFunc_def)

section \<open>The equality engine\<close>

lemma CheckResult_True [simp]: "CheckResult cfg True paths s = Inr (True, s)"
  by (simp add: CheckResult_def)



lemma marked_refl [simp]: "marked st st"
  by (simp add: marked_def)

lemma marked_trans: "marked a b \<Longrightarrow> marked b c \<Longrightarrow> marked a c"
  by (auto simp add: marked_def)

lemma frame_refl [simp]: "frame E s s"
  by (simp add: frame_def)

lemma frame_trans: "frame E s s1 \<Longrightarrow> frame E s1 s2 \<Longrightarrow> frame E s s2"
  by (auto simp add: frame_def intro: marked_trans)

lemma frame_first_mismatch [simp]: "frame E s (s\<lparr>first_mismatch := p\<rparr>)"
  by (simp add: frame_def)

lemma frame_first_mismatch2: "frame E s s' \<Longrightarrow> frame E s (s'\<lparr>first_mismatch := p\<rparr>)"
  by (simp add: frame_def)

lemma CheckResult_frame: "CheckResult cfg v paths s = Inr (v', s') \<Longrightarrow> frame E s s' \<and> v' = v"
  by (auto simp add: CheckResult_def Let_def split: if_splits)

lemma typed_task_new: "early_result E a b s = None \<Longrightarrow> typed_task E (new_Task a b free_vars paths)"
  by (auto simp add: early_result_def typed_task_def typed_pair_def new_Task_def
      split: option.splits if_splits)

lemma typed_task_ForceFail [simp]: "typed_task E (ForceFail_Task p)"
  by (simp add: typed_task_def ForceFail_Task_def)

lemma frame_pending: "typed_task E t \<Longrightarrow> frame E s (s\<lparr>pending_tasks := pending_tasks s @ [t]\<rparr>)"
  by (simp add: frame_def)

lemma SEqualReduce_frame:
  "SEqualReduce E cfg a b free_vars paths s = Inr (v, s') \<Longrightarrow> frame E s s'"
  unfolding SEqualReduce_def
  by (auto split: option.splits bool.splits if_splits
      dest!: CheckResult_frame [where E = E]
      intro!: frame_pending typed_task_new
      simp add: DeferFail_impl_def)

lemma ObjectAttrsEqual_frame:
  "ObjectAttrsEqual E cfg eq a b free_vars paths lkey rkey s = Inr (v, s') \<Longrightarrow> frame E s s'"
  unfolding ObjectAttrsEqual_def Let_def
  by (auto split: option.splits sum.splits if_splits prod.splits
      dest!: SEqualReduce_frame intro: frame_first_mismatch2)

lemma AnyEqual_frame:
  "AnyEqual_impl E cfg eq x y paths s = Inr (v, s') \<Longrightarrow> frame E s s'"
  unfolding AnyEqual_impl_def Let_def
  by (auto split: option.splits if_splits dest!: ObjectAttrsEqual_frame)

lemma CompareAttributeValues_frame:
  "CompareAttributeValues v tracing paths lkey rkey s = (v', s') \<Longrightarrow> frame E s s'"
  unfolding CompareAttributeValues_def GetPathsFromAttrAddressesAndStoreMismatch_def
  by (auto split: option.splits if_splits)

lemma EnumAttrsEqual_frame:
  "EnumAttrsEqual_impl eq a b paths s = (v', s') \<Longrightarrow> frame E s s'"
  unfolding EnumAttrsEqual_impl_def GetPathsFromAttrAddressesAndStoreMismatch_def
  by (auto split: option.splits if_splits)

lemma MarkGraphNode_frame: "MarkGraphNode_impl s = Inr s' \<Longrightarrow> frame E s s'"
  unfolding MarkGraphNode_impl_def
  by (auto split: list.splits if_splits simp add: frame_def marked_def)

lemma answer_bool_Inr:
  "answer_bool r = Inr (a, s') \<longleftrightarrow> (\<exists>v. r = Inr (v, s') \<and> a = A_bool v)"
  by (auto simp add: answer_bool_def split: sum.splits)

lemma do_call_frame: "do_call E cfg eq c s = Inr (a, s') \<Longrightarrow> frame E s s'"
  unfolding do_call_def
  by (cases c)
     (auto split: option.splits sum.splits if_splits prod.splits
        dest!: ObjectAttrsEqual_frame AnyEqual_frame MarkGraphNode_frame
        dest: CompareAttributeValues_frame EnumAttrsEqual_frame
        intro!: frame_pending simp add: DeferFail_impl_def answer_bool_Inr)

lemma run_reducer_frame: "run_reducer E cfg eq p s = Inr (v, s') \<Longrightarrow> frame E s s'"
proof (induction p arbitrary: s)
  case (Return x)
  then show ?case by simp
next
  case (Abort x)
  then show ?case by simp
next
  case (Do c k)
  from Do.prems obtain a s1 where c: "do_call E cfg eq c s = Inr (a, s1)"
    and r: "run_reducer E cfg eq (k a) s1 = Inr (v, s')"
    by (auto split: sum.splits)
  have "frame E s1 s'"
    using Do.IH [OF _ r] by simp
  with do_call_frame [OF c] show ?case
    by (rule frame_trans)
qed

lemma Dispatch_frame:
  "DispatchSEqualReduce E cfg a b free_vars paths s = Inr (v, s') \<Longrightarrow> frame E s s'"
  unfolding DispatchSEqualReduce_def ReflectionVTable_SEqualReduce_def
  by (auto split: option.splits sum.splits if_splits prod.splits
      dest!: CheckResult_frame [where E = E] run_reducer_frame intro: frame_trans)

lemma typed_task_mark [simp]: "typed_task E (e\<lparr>graph_equal := v\<rparr>) = typed_task E e"
  by (simp add: typed_task_def)

lemma typed_task_expand [simp]: "typed_task E (e\<lparr>children_expanded := v\<rparr>) = typed_task E e"
  by (simp add: typed_task_def)

lemma frame_inv: "frame E s s' \<Longrightarrow> engine_inv E s \<Longrightarrow> engine_inv E s'"
  by (auto simp add: frame_def engine_inv_def rhs_inverse_def typed_maps_def marked_def)

lemma complete_inv:
  assumes "engine_inv E s" "task_stack s = entry # rest" "\<not> force_fail entry"
    "equal_map_lhs s (lhs entry) = None \<or> equal_map_lhs s (lhs entry) = Some (rhs entry)"
  shows "engine_inv E (complete_entry entry rest s)"
proof -
  have t: "typed_pair E (lhs entry) (rhs entry)"
    using assms(1-3) by (simp add: engine_inv_def typed_task_def)
  have r: "rhs_inverse s" and m: "typed_maps E s"
    and st: "list_all (typed_task E) rest" "list_all (typed_task E) (pending_tasks s)"
    using assms(1,2) by (simp_all add: engine_inv_def)
  have "rhs_inverse (complete_entry entry rest s)"
    using r assms(4) by (auto simp add: rhs_inverse_def complete_entry_def)
  moreover have "typed_maps E (complete_entry entry rest s)"
    using m t by (auto simp add: typed_maps_def complete_entry_def)
  ultimately show ?thesis
    using st by (simp add: engine_inv_def complete_entry_def)
qed

lemma push_pending_inv: "engine_inv E s \<Longrightarrow> engine_inv E (push_pending s)"
  by (simp add: engine_inv_def push_pending_def rhs_inverse_def typed_maps_def)

lemma expand_inv:
  "engine_inv E s \<Longrightarrow> task_stack s = entry # rest
   \<Longrightarrow> engine_inv E (s\<lparr>task_stack := entry\<lparr>children_expanded := True\<rparr> # rest,
                         allow_push_to_stack := False\<rparr>)"
  by (simp add: engine_inv_def rhs_inverse_def typed_maps_def)

lemma step_inv:
  assumes "engine_inv E s" "task_stack s = entry # rest"
    "RunTasks_step E cfg entry rest s = Inr s'"
  shows "engine_inv E s'"
proof (cases "children_expanded entry")
  case True
  then show ?thesis
    using assms complete_inv [OF assms(1,2)]
    by (auto simp add: RunTasks_step_def split: if_splits option.splits)
next
  case False
  then obtain s2 where d: "DispatchSEqualReduce E cfg (lhs entry) (rhs entry) (map_free_vars entry)
        (current_paths entry)
        (s\<lparr>task_stack := entry\<lparr>children_expanded := True\<rparr> # rest, allow_push_to_stack := False\<rparr>)
        = Inr (True, s2)" and s': "s' = push_pending s2"
    using assms(3)
    by (auto simp add: RunTasks_step_def Let_def split: if_splits sum.splits)
  show ?thesis
    unfolding s'
    by (intro push_pending_inv frame_inv [OF Dispatch_frame [OF d]] expand_inv assms)
qed

lemma stop_inv:
  assumes "engine_inv E s" "task_stack s = entry # rest"
    "RunTasks_step E cfg entry rest s = Inl (Inr (v, s'))"
  shows "engine_inv E s'"
proof (cases "force_fail entry")
  case True
  then show ?thesis
    using assms frame_inv [OF conjunct1 [OF CheckResult_frame]]
    by (auto simp add: RunTasks_step_def)
next
  case False
  then have d: "DispatchSEqualReduce E cfg (lhs entry) (rhs entry) (map_free_vars entry)
        (current_paths entry)
        (s\<lparr>task_stack := entry\<lparr>children_expanded := True\<rparr> # rest, allow_push_to_stack := False\<rparr>)
        = Inr (False, s')"
    using assms(3)
    by (auto simp add: RunTasks_step_def Let_def split: if_splits sum.splits option.splits)
  show ?thesis
    by (intro frame_inv [OF Dispatch_frame [OF d]] expand_inv assms)
qed

lemma reach_inv: "RunTasks_reach E cfg s s' \<Longrightarrow> engine_inv E s \<Longrightarrow> engine_inv E s'"
  by (induction rule: RunTasks_reach.induct) (auto intro: step_inv stop_inv)

lemma clear_inv: "engine_inv E (clear_Impl s)"
  by (simp add: engine_inv_def clear_Impl_def rhs_inverse_def typed_maps_def)

lemma start_tasks_inv: "start_tasks s = Inr s' \<Longrightarrow> engine_inv E s \<Longrightarrow> engine_inv E s'"
  by (cases "pending_tasks s" rule: rev_cases)
     (auto simp add: start_tasks_def engine_inv_def rhs_inverse_def typed_maps_def split: if_splits)

lemma visits_inv:
  assumes "Equal_visits E cfg x y free_vars s0 s"
  shows "engine_inv E s"
proof -
  have c: "engine_inv E (clear_Impl s0)"
    by (rule clear_inv)
  have r: "engine_inv E s1"
    if "SEqualReduce E cfg a b free_vars paths (clear_Impl s0) = Inr (v, s1)" for a b paths v s1
    using frame_inv [OF SEqualReduce_frame [OF that] c] .
  have k: "engine_inv E s1"
    if "CheckResult cfg False paths (clear_Impl s0) = Inr (v, s1)" for paths v s1
    using frame_inv [OF conjunct1 [OF CheckResult_frame [OF that]] c] .
  show ?thesis
    using assms c r k unfolding Equal_visits_def
    by (blast intro: reach_inv start_tasks_inv)
qed

text \<open>
  One direction of the inverse relation holds of the code. In every state of a top-level
  call of \<open>Equal\<close>, an entry \<open>equal_map_rhs[b] = a\<close> has its inverse
  \<open>equal_map_lhs[a] = b\<close>, and the two nodes are defined and of one type: both entries
  are written together when a graph-equal task completes, and the completion checks the
  left map.
\<close>

lemma equal_map_rhs_inverse:
  "Equal_visits E cfg x y free_vars s0 s \<Longrightarrow> equal_map_rhs s b = Some a
   \<Longrightarrow> equal_map_lhs s a = Some b \<and> typed_pair E a b"
  using visits_inv [of E cfg x y free_vars s0 s]
  by (auto simp add: engine_inv_def rhs_inverse_def typed_maps_def)

lemma RunTasks_reach_result_aux:
  assumes "RunTasks E cfg s = Some res"
  shows "\<forall>v s' s0. res = Inr (v, s') \<longrightarrow> RunTasks_reach E cfg s0 s \<longrightarrow> RunTasks_reach E cfg s0 s'"
proof (rule RunTasks.raw_induct [where P = "\<lambda>E cfg s res.
    \<forall>v s' s0. res = Inr (v, s') \<longrightarrow> RunTasks_reach E cfg s0 s \<longrightarrow> RunTasks_reach E cfg s0 s'",
    OF _ assms])
  fix RT :: "env \<Rightarrow> config \<Rightarrow> Impl \<Rightarrow> (error + bool \<times> Impl) option"
  fix E cfg s res
  assume IH: "\<And>E cfg s res. RT E cfg s = Some res \<Longrightarrow>
      \<forall>v s' s0. res = Inr (v, s') \<longrightarrow> RunTasks_reach E cfg s0 s \<longrightarrow> RunTasks_reach E cfg s0 s'"
  assume eq: "(case task_stack s of [] \<Rightarrow> Some (Inr (True, s))
              | entry # rest \<Rightarrow>
                  (case RunTasks_step E cfg entry rest s of Inl res \<Rightarrow> Some res
                   | Inr s' \<Rightarrow> RT E cfg s')) = Some res"
  show "\<forall>v s' s0. res = Inr (v, s') \<longrightarrow> RunTasks_reach E cfg s0 s \<longrightarrow> RunTasks_reach E cfg s0 s'"
  proof (cases "task_stack s")
    case Nil
    with eq show ?thesis by auto
  next
    case (Cons entry rest)
    show ?thesis
    proof (cases "RunTasks_step E cfg entry rest s")
      case (Inl r)
      with eq Cons show ?thesis
        by (auto intro: RunTasks_reach.stop)
    next
      case (Inr s2)
      with eq Cons have rt: "RT E cfg s2 = Some res"
        by simp
      show ?thesis
      proof (intro allI impI)
        fix v s' s0
        assume res: "res = Inr (v, s')" and reach: "RunTasks_reach E cfg s0 s"
        have "RunTasks_reach E cfg s0 s2"
          using reach Cons Inr by (rule RunTasks_reach.step)
        with IH [OF rt] res show "RunTasks_reach E cfg s0 s'"
          by blast
      qed
    qed
  qed
qed

lemma RunTasks_reach_result:
  "RunTasks E cfg s = Some (Inr (v, s')) \<Longrightarrow> RunTasks_reach E cfg s s'"
  using RunTasks_reach_result_aux [of E cfg s "Inr (v, s')"] RunTasks_reach.start by blast

lemma Equal_result_visited:
  assumes "Equal E cfg x y free_vars s0 = Some (Inr (v, s))"
  shows "Equal_visits E cfg x y free_vars s0 s"
  using assms unfolding Equal_def Equal_visits_def Let_def
  by (auto split: if_splits sum.splits dest!: RunTasks_reach_result
      dest: CheckResult_frame)

lemmas engine_defs =
  RunTasks_step_def DispatchSEqualReduce_def ReflectionVTable_SEqualReduce_def
  IsPathTracingEnabled_impl_def IsFailDeferralEnabled_impl_def do_call_def answer_bool_def
  MarkGraphNode_impl_def ObjectAttrsEqual_def SEqualReduce_def early_result_def CheckResult_def
  push_pending_def new_Task_def complete_entry_def GetPathsForAttrs_def GetAttrPath_def
  ObjectPath_Attr_def ObjectPath_Root_def DeferFail_impl_def ForceFail_Task_def

lemmas Equal_defs =
  Equal_def new_Impl_def clear_Impl_def root_paths_def Any_type_index_def Any_cast_ObjectRef_def
  Any_v_uint64_def start_tasks_def

lemma Equal_wrap_plain:
  "Equal wrap_env plain_config (AnyObject 1) (AnyObject 3) False new_Impl
   = Some (Inr (True, wrap_final))"
  apply (simp add: Equal_defs engine_defs wrap_env_def plain_config_def)
  apply (subst RunTasks.simps, simp add: engine_defs)
  apply (subst RunTasks.simps, simp add: engine_defs)
  apply (subst RunTasks.simps, simp add: engine_defs)
  apply (subst RunTasks.simps, simp add: engine_defs)
  apply (subst RunTasks.simps, simp add: engine_defs wrap_final_def)
  done

lemma Equal_wrap_mismatch:
  "Equal wrap_env mismatch_config (AnyObject 1) (AnyObject 3) False new_Impl
   = Some (Inr (True, wrap_final))"
  apply (simp add: Equal_defs engine_defs wrap_env_def mismatch_config_def)
  apply (subst RunTasks.simps, simp add: engine_defs)
  apply (subst RunTasks.simps, simp add: engine_defs)
  apply (subst RunTasks.simps, simp add: engine_defs)
  apply (subst RunTasks.simps, simp add: engine_defs)
  apply (subst RunTasks.simps, simp add: engine_defs wrap_final_def)
  done

text \<open>
  Claim C9 on the code. The completion of a graph-equal task checks the left map and then
  writes both maps, so that it overwrites an entry of \<open>equal_map_rhs\<close> without a check.
  Comparing node 1 with node 3, where the reducer of node 1 compares its inner node 2 with
  the right-hand node it was given, the task (2, 3) completes inside the task (1, 3); the
  completion of the latter overwrites \<open>equal_map_rhs[3]\<close>. \<open>Equal\<close> returns true, and in its
  final state the nodes 1 and 2 are both mapped to node 3, \<open>equal_map_rhs[3]\<close> is node 1
  and the entry \<open>equal_map_lhs[2] = 3\<close> has no inverse: the maps are not a bijection.
\<close>

theorem Equal_maps_not_inverse:
  "Equal wrap_env plain_config (AnyObject 1) (AnyObject 3) False new_Impl
   = Some (Inr (True, wrap_final))
   \<and> equal_map_lhs wrap_final (Some 1) = Some (Some 3)
   \<and> equal_map_lhs wrap_final (Some 2) = Some (Some 3)
   \<and> equal_map_rhs wrap_final (Some 3) = Some (Some 1)
   \<and> equal_map_rhs wrap_final (Some 3) \<noteq> Some (Some 2)"
  using Equal_wrap_plain by (simp add: wrap_final_def)


section \<open>Equality of tensor leaves\<close>

lemma do_call_Equal_value_True [simp]:
  "do_call E cfg eq (Equal_value True paths lkey rkey) s = Inr (A_bool True, s)"
  by (simp add: do_call_def CompareAttributeValues_def answer_bool_def)

lemma do_call_Equal_value_False:
  "\<exists>s'. do_call E cfg eq (Equal_value False paths lkey rkey) s = Inr (A_bool False, s')"
  by (simp add: do_call_def CompareAttributeValues_def answer_bool_def split: option.splits)

lemma dims_all_equal:
  "(\<And>j. i \<le> j \<Longrightarrow> j < i + n \<Longrightarrow> j < length (shape l) \<and> j < length (shape r) \<and> shape l ! j = shape r ! j)
   \<Longrightarrow> run_reducer E cfg eq (NDArrayEqual_dims l r lkey rkey n i rest) s = run_reducer E cfg eq rest s"
  by (induction n arbitrary: i) auto

lemma dims_some_differ:
  "(\<And>j. i \<le> j \<Longrightarrow> j < i + n \<Longrightarrow> j < length (shape l) \<and> j < length (shape r))
   \<Longrightarrow> \<exists>j. i \<le> j \<and> j < i + n \<and> shape l ! j \<noteq> shape r ! j
   \<Longrightarrow> \<exists>s'. run_reducer E cfg eq (NDArrayEqual_dims l r lkey rkey n i rest) s = Inr (False, s')"
proof (induction n arbitrary: i)
  case 0
  then show ?case by auto
next
  case (Suc n)
  have b: "i < length (shape l)" "i < length (shape r)"
    using Suc.prems(1) [of i] by simp_all
  show ?case
  proof (cases "shape l ! i = shape r ! i")
    case True
    with Suc.prems(2) have "\<exists>j. Suc i \<le> j \<and> j < Suc i + n \<and> shape l ! j \<noteq> shape r ! j"
      by (metis Suc_leI add_Suc_shift le_neq_implies_less add_Suc)
    then have "\<exists>s'. run_reducer E cfg eq (NDArrayEqual_dims l r lkey rkey n (Suc i) rest) s = Inr (False, s')"
      using Suc.prems(1) by (intro Suc.IH) auto
    with True b show ?thesis by simp
  next
    case False
    obtain s' where "do_call E cfg eq (Equal_value False None (lkey i) (rkey i)) s = Inr (A_bool False, s')"
      using do_call_Equal_value_False by blast
    with False b show ?thesis by simp
  qed
qed

lemma NDArrayEqual_data_run:
  "(compare_data \<and> same_dtype l r \<longrightarrow>
      GetDataSize ops l \<le> length (data l) \<and> GetDataSize ops l \<le> length (data r))
   \<Longrightarrow> run_reducer E cfg eq (NDArrayEqual_data ops l r compare_data) s
       = Inr (code (dtype l) = code (dtype r) \<and> bits (dtype l) = bits (dtype r)
              \<and> lanes (dtype l) = lanes (dtype r)
              \<and> (if compare_data
                  then take (GetDataSize ops l) (data l) = take (GetDataSize ops l) (data r)
                  else True), s)"
  by (auto simp add: NDArrayEqual_data_def same_dtype_def Let_def)

lemma same_dims_iff:
  "same_dims l r \<longleftrightarrow> (\<forall>j < nat (ndim l). shape l ! j = shape r ! j)"
  by (auto simp add: same_dims_def list_all_iff)

text \<open>
  Claim C5, as amended. For two different containers, \<open>NDArrayEqual\<close> aborts with a failed
  check when one of them is not on the CPU or not contiguous, never returning false or
  true; when both are CPU tensors and contiguous it returns true exactly when they have
  the same rank, every dimension compares equal through the reducer, the data types agree
  in code, bits and lanes and, when the data is compared, the first \<open>GetDataSize\<close> bytes
  of the buffers are equal. This holds for every pair in which the shape arrays and the
  buffers hold what the comparison reads (\<open>wf_tensors\<close>); nothing is asked of the buffers
  of a pair that differs in rank, in a dimension or in the data type. For one and the same
  container (the pointers are equal) it returns true at once, before any check.
\<close>

theorem NDArrayEqual_result:
  "(lhs_ptr = rhs_ptr \<longrightarrow>
      run_reducer E cfg eq (NDArrayEqual ops heap lhs_ptr rhs_ptr compare_data) s = Inr (True, s))
   \<and> (lhs_ptr \<noteq> rhs_ptr \<and> \<not> cpu_contiguous ops (heap lhs_ptr) (heap rhs_ptr) \<longrightarrow>
        (\<exists>c m. run_reducer E cfg eq (NDArrayEqual ops heap lhs_ptr rhs_ptr compare_data) s
               = Inl (Check_failed c m)))
   \<and> (lhs_ptr \<noteq> rhs_ptr \<and> cpu_contiguous ops (heap lhs_ptr) (heap rhs_ptr)
        \<and> wf_tensors ops (heap lhs_ptr) (heap rhs_ptr) compare_data \<longrightarrow>
        (\<exists>s'. run_reducer E cfg eq (NDArrayEqual ops heap lhs_ptr rhs_ptr compare_data) s
               = Inr (tensors_equal ops (heap lhs_ptr) (heap rhs_ptr) compare_data, s')))"
proof (intro conjI impI)
  assume "lhs_ptr = rhs_ptr"
  then show "run_reducer E cfg eq (NDArrayEqual ops heap lhs_ptr rhs_ptr compare_data) s = Inr (True, s)"
    by (simp add: NDArrayEqual_def)
next
  assume "lhs_ptr \<noteq> rhs_ptr \<and> \<not> cpu_contiguous ops (heap lhs_ptr) (heap rhs_ptr)"
  then show "\<exists>c m. run_reducer E cfg eq (NDArrayEqual ops heap lhs_ptr rhs_ptr compare_data) s
                   = Inl (Check_failed c m)"
    by (auto simp add: NDArrayEqual_def cpu_contiguous_def Let_def)
next
  let ?l = "heap lhs_ptr" and ?r = "heap rhs_ptr"
  let ?dims = "NDArrayEqual_dims ?l ?r (shape_attr_key ops lhs_ptr) (shape_attr_key ops rhs_ptr)
            (nat (ndim ?l)) 0 (NDArrayEqual_data ops ?l ?r compare_data)"
  assume h0: "lhs_ptr \<noteq> rhs_ptr \<and> cpu_contiguous ops ?l ?r \<and> wf_tensors ops ?l ?r compare_data"
  then have h: "lhs_ptr \<noteq> rhs_ptr \<and> cpu_contiguous ops ?l ?r"
    and wf: "wf_tensors ops ?l ?r compare_data"
    by simp_all
  show "\<exists>s'. run_reducer E cfg eq (NDArrayEqual ops heap lhs_ptr rhs_ptr compare_data) s
                   = Inr (tensors_equal ops ?l ?r compare_data, s')"
  proof (cases "ndim ?l = ndim ?r")
    case False
    with h show ?thesis
      by (simp add: NDArrayEqual_def cpu_contiguous_def Let_def tensors_equal_def)
  next
    case True
    have run: "run_reducer E cfg eq (NDArrayEqual ops heap lhs_ptr rhs_ptr compare_data) s
               = run_reducer E cfg eq ?dims s"
      using h True by (simp add: NDArrayEqual_def cpu_contiguous_def Let_def)
    have bounds: "j < length (shape ?l) \<and> j < length (shape ?r)" if "j < 0 + nat (ndim ?l)" for j
      using that wf True by (simp add: wf_tensors_def)
    show ?thesis
    proof (cases "same_dims ?l ?r")
      case sd: True
      have sz: "compare_data \<and> same_dtype ?l ?r \<longrightarrow>
          GetDataSize ops ?l \<le> length (data ?l) \<and> GetDataSize ops ?l \<le> length (data ?r)"
        using wf True sd by (simp add: wf_tensors_def reaches_memcmp_def)
      have "run_reducer E cfg eq ?dims s
            = run_reducer E cfg eq (NDArrayEqual_data ops ?l ?r compare_data) s"
        using sd bounds by (intro dims_all_equal) (auto simp add: same_dims_iff)
      then show ?thesis
        using run True sd by (simp add: NDArrayEqual_data_run [OF sz] tensors_equal_def)
    next
      case sd: False
      then have "\<exists>j. 0 \<le> j \<and> j < 0 + nat (ndim ?l) \<and> shape ?l ! j \<noteq> shape ?r ! j"
        by (auto simp add: same_dims_iff)
      then have "\<exists>s'. run_reducer E cfg eq ?dims s = Inr (False, s')"
        using bounds by (intro dims_some_differ) auto
      then show ?thesis
        using run sd by (simp add: tensors_equal_def)
    qed
  qed
qed

text \<open>
  Claim C5 as stated fails: a tensor that is not on the CPU, compared with itself, gives
  true and no fatal error.
\<close>

theorem NDArrayEqual_same_pointer_counterexample:
  "run_reducer wrap_env plain_config untraced (NDArrayEqual example_ops example_heap 0 0 True) new_Impl
     = Inr (True, new_Impl)
   \<and> device_type (example_heap 0) \<noteq> kDLCPU"
  by (simp add: NDArrayEqual_def example_heap_def gpu_tensor_def kDLCPU_def)

text \<open>
  Examples: two tensors of shape [2] that differ in a byte, with and without the
  comparison of the data; a tensor of shape [4] against one of shape [2], where the
  comparison returns false at the dimension and the shorter buffer is not read; a tensor
  on another device, where the comparison aborts.
\<close>

theorem NDArrayEqual_result_witness:
  "wf_tensors example_ops (example_heap 1) (example_heap 2) True
   \<and> cpu_contiguous example_ops (example_heap 1) (example_heap 2)
   \<and> (\<exists>s'. run_reducer wrap_env plain_config untraced
              (NDArrayEqual example_ops example_heap 1 2 True) new_Impl = Inr (False, s'))
   \<and> wf_tensors example_ops (example_heap 1) (example_heap 2) False
   \<and> (\<exists>s'. run_reducer wrap_env plain_config untraced
              (NDArrayEqual example_ops example_heap 1 2 False) new_Impl = Inr (True, s'))
   \<and> wf_tensors example_ops (example_heap 3) (example_heap 1) True
   \<and> cpu_contiguous example_ops (example_heap 3) (example_heap 1)
   \<and> length (data (example_heap 1)) < GetDataSize example_ops (example_heap 3)
   \<and> (\<exists>s'. run_reducer wrap_env plain_config untraced
              (NDArrayEqual example_ops example_heap 3 1 True) new_Impl = Inr (False, s'))
   \<and> \<not> cpu_contiguous example_ops (example_heap 0) (example_heap 1)
   \<and> (\<exists>c m. run_reducer wrap_env plain_config untraced
              (NDArrayEqual example_ops example_heap 0 1 True) new_Impl = Inl (Check_failed c m))"
proof -
  have wf: "wf_tensors example_ops (example_heap 1) (example_heap 2) True"
    "wf_tensors example_ops (example_heap 1) (example_heap 2) False"
    "wf_tensors example_ops (example_heap 3) (example_heap 1) True"
    by (simp_all add: wf_tensors_def reaches_memcmp_def same_dims_def example_ops_def
        example_heap_def cpu_tensor_def long_tensor_def)
  have cc: "cpu_contiguous example_ops (example_heap 1) (example_heap 2)"
    "cpu_contiguous example_ops (example_heap 3) (example_heap 1)"
    "\<not> cpu_contiguous example_ops (example_heap 0) (example_heap 1)"
    by (simp_all add: cpu_contiguous_def example_ops_def example_heap_def cpu_tensor_def
        long_tensor_def gpu_tensor_def kDLCPU_def)
  have t: "\<not> tensors_equal example_ops (example_heap 1) (example_heap 2) True"
    "tensors_equal example_ops (example_heap 1) (example_heap 2) False"
    "\<not> tensors_equal example_ops (example_heap 3) (example_heap 1) True"
    by (simp_all add: tensors_equal_def same_dims_def example_ops_def example_heap_def
        cpu_tensor_def long_tensor_def)
  have sz: "length (data (example_heap 1)) < GetDataSize example_ops (example_heap 3)"
    by (simp add: example_ops_def example_heap_def cpu_tensor_def long_tensor_def)
  show ?thesis
    using NDArrayEqual_result [of 1 2 wrap_env plain_config untraced example_ops example_heap True new_Impl]
      NDArrayEqual_result [of 1 2 wrap_env plain_config untraced example_ops example_heap False new_Impl]
      NDArrayEqual_result [of 3 1 wrap_env plain_config untraced example_ops example_heap True new_Impl]
      NDArrayEqual_result [of 0 1 wrap_env plain_config untraced example_ops example_heap True new_Impl]
      wf cc t sz
    by simp
qed

section \<open>Termination on acyclic graphs\<close>

lemma below_frame_refl [simp]: "below_frame rank n s s"
  by (simp add: below_frame_def)

lemma below_frame_trans:
  "below_frame rank n s s1 \<Longrightarrow> below_frame rank n s1 s2 \<Longrightarrow> below_frame rank n s s2"
  by (auto simp add: below_frame_def)

lemma below_frame_mismatch [simp]: "below_frame rank n s (s\<lparr>first_mismatch := p\<rparr>)"
  by (simp add: below_frame_def)

lemma CheckResult_below:
  "CheckResult cfg v paths s = Inr (v', s') \<Longrightarrow> below_frame rank n s s'"
  by (auto simp add: CheckResult_def Let_def split: if_splits)

lemma SEqualReduce_below:
  assumes "SEqualReduce E cfg a b free_vars paths s = Inr (v, s')" and "ref_below rank n a"
  shows "below_frame rank n s s'"
proof (cases "early_result E a b s")
  case None
  then obtain x where a: "a = Some x"
    by (cases a; cases b) (simp_all add: early_result_def)
  with assms(2) have "task_weight rank (new_Task a b free_vars paths) \<le> 2 * n"
    by (simp add: task_weight_def new_Task_def ref_below_def)
  with assms(1) None show ?thesis
    by (auto simp add: SEqualReduce_def CheckResult_def Let_def below_frame_def split: if_splits)
next
  case (Some r)
  have "task_weight rank (ForceFail_Task p) \<le> 2 * n" for p
    by (simp add: task_weight_def ForceFail_Task_def)
  with assms(1) Some show ?thesis
    by (cases r)
       (auto simp add: SEqualReduce_def CheckResult_def Let_def below_frame_def DeferFail_impl_def
             split: if_splits option.splits)
qed

lemma ObjectAttrsEqual_below:
  assumes "ObjectAttrsEqual E cfg eq a b free_vars paths lkey rkey s = Inr (v, s')"
    and "ref_below rank n a"
  shows "below_frame rank n s s'"
proof (cases "tracing_data eq")
  case None
  with assms show ?thesis
    by (auto simp add: ObjectAttrsEqual_def intro: SEqualReduce_below)
next
  case (Some cur)
  with assms(1) obtain np v1 s1 where
    r: "SEqualReduce E cfg a b free_vars (Some np) s = Inr (v1, s1)"
    and s': "s' = s1 \<or> s' = s1\<lparr>first_mismatch := Some np\<rparr>"
    by (auto simp add: ObjectAttrsEqual_def Let_def split: sum.splits if_splits)
  from SEqualReduce_below [OF r assms(2)] s' show ?thesis
    by (auto intro: below_frame_trans)
qed

lemma AnyEqual_below:
  assumes "AnyEqual_impl E cfg eq x y paths s = Inr (v, s')"
    and "ref_below rank n (Any_cast_ObjectRef x)"
  shows "below_frame rank n s s'"
  using assms
  by (auto simp add: AnyEqual_impl_def Let_def split: if_splits option.splits
           intro: ObjectAttrsEqual_below)

lemma MarkGraphNode_below:
  "MarkGraphNode_impl s = Inr s' \<Longrightarrow> below_frame rank n s s'"
  by (auto simp add: MarkGraphNode_impl_def below_frame_def task_weight_def
           split: list.splits if_splits)

lemma do_call_below:
  assumes "do_call E cfg eq c s = Inr (a, s')" and "call_below rank n c"
  shows "below_frame rank n s s'"
proof (cases c)
  case (Equal_object a1 b1 lkey rkey)
  with assms show ?thesis
    by (auto simp add: do_call_def call_below_def dest!: answer_bool_Inr [THEN iffD1] intro: ObjectAttrsEqual_below)
next
  case (Equal_object_paths a1 b1 p)
  with assms show ?thesis
    by (auto simp add: do_call_def call_below_def dest!: answer_bool_Inr [THEN iffD1] intro: ObjectAttrsEqual_below)
next
  case (DefEqual a1 b1 lkey rkey)
  with assms show ?thesis
    by (auto simp add: do_call_def call_below_def dest!: answer_bool_Inr [THEN iffD1] intro: ObjectAttrsEqual_below)
next
  case (Equal_value v paths lkey rkey)
  with assms show ?thesis
    by (auto simp add: do_call_def CompareAttributeValues_def
          GetPathsFromAttrAddressesAndStoreMismatch_def
          dest!: answer_bool_Inr [THEN iffD1] split: if_splits option.splits)
next
  case (AnyEqual x y paths)
  with assms show ?thesis
    by (auto simp add: do_call_def call_below_def dest!: answer_bool_Inr [THEN iffD1] intro: AnyEqual_below)
next
  case (EnumAttrsEqual i j paths)
  with assms show ?thesis
    by (auto simp add: do_call_def EnumAttrsEqual_impl_def
          GetPathsFromAttrAddressesAndStoreMismatch_def
          dest!: answer_bool_Inr [THEN iffD1] split: if_splits option.splits)
next
  case MarkGraphNode
  with assms show ?thesis
    by (auto simp add: do_call_def split: sum.splits intro: MarkGraphNode_below)
next
  case (DeferFail p)
  with assms show ?thesis
    by (auto simp add: do_call_def DeferFail_impl_def below_frame_def task_weight_def
          ForceFail_Task_def)
qed (use assms in \<open>auto simp add: do_call_def split: option.splits if_splits\<close>)

lemma run_reducer_below:
  "calls_below rank n p \<Longrightarrow> run_reducer E cfg eq p s = Inr (v, s')
     \<Longrightarrow> below_frame rank n s s'"
proof (induction p arbitrary: s)
  case (Do c k)
  from Do.prems(2) obtain a s1 where
    c: "do_call E cfg eq c s = Inr (a, s1)" and r: "run_reducer E cfg eq (k a) s1 = Inr (v, s')"
    by (auto split: sum.splits)
  from Do.prems(1) have cb: "call_below rank n c" and kb: "calls_below rank n (k a)"
    by simp_all
  from do_call_below [OF c cb] Do.IH [OF _ kb r] show ?case
    by (auto intro: below_frame_trans)
qed simp_all

lemma Dispatch_below:
  assumes ac: "acyclic_graph rank E"
    and d: "DispatchSEqualReduce E cfg a b free_vars paths s = Inr (v, s')"
  shows "\<exists>x. a = Some x \<and> below_frame rank (rank x) s s'"
proof -
  from d obtain x y where a: "a = Some x" and b: "b = Some y"
    by (cases a; cases b) (simp_all add: DispatchSEqualReduce_def)
  have red: "below_frame rank (rank x) s s1"
    if "ReflectionVTable_SEqualReduce E cfg x y eq s = Inr (v1, s1)" for eq v1 s1
  proof -
    from that obtain f where f: "fsequal_reduce E (type_index E x) = Some f"
      and r: "run_reducer E cfg eq (f x y (reducer_free_vars eq)) s = Inr (v1, s1)"
      by (auto simp add: ReflectionVTable_SEqualReduce_def split: option.splits)
    from ac f have "calls_below rank (rank x) (f x y (reducer_free_vars eq))"
      by (simp add: acyclic_graph_def)
    from run_reducer_below [OF this r] show ?thesis .
  qed
  have red_cr: "below_frame rank (rank x) s s'"
    if "ReflectionVTable_SEqualReduce E cfg x y eq s = Inr (v1, s1)"
      and "CheckResult cfg v1 paths s1 = Inr (v, s')" for eq v1 s1
    using red [OF that(1)] CheckResult_below [OF that(2)] by (rule below_frame_trans)
  from d a b have "below_frame rank (rank x) s s'"
    by (auto simp add: DispatchSEqualReduce_def split: if_splits option.splits sum.splits
             intro: red_cr CheckResult_below)
  with a show ?thesis
    by simp
qed

lemma RunTasks_step_decreases:
  assumes ac: "acyclic_graph rank E" and st: "task_stack s = entry # rest"
    and step: "RunTasks_step E cfg entry rest s = Inr s'"
  shows "(mset (map (task_weight rank) (task_stack s')),
          mset (map (task_weight rank) (task_stack s))) \<in> mult {(m, n). m < n}"
proof -
  let ?w = "task_weight rank"
  from step have nff: "\<not> force_fail entry"
    by (auto simp add: RunTasks_step_def)
  show ?thesis
  proof (cases "children_expanded entry")
    case True
    with step nff have "task_stack s' = rest"
      by (auto simp add: RunTasks_step_def complete_entry_def split: option.splits if_splits)
    moreover have "(mset (map ?w rest) + {#}, mset (map ?w rest) + {#?w entry#}) \<in> mult {(m, n). m < n}"
      by (rule one_step_implies_mult) simp_all
    ultimately show ?thesis
      using st by simp
  next
    case False
    define s1 where "s1 = s\<lparr>task_stack := entry\<lparr>children_expanded := True\<rparr> # rest,
                            allow_push_to_stack := False\<rparr>"
    from step nff False obtain s2 where
      pe: "pending_tasks s = []"
      and d: "DispatchSEqualReduce E cfg (lhs entry) (rhs entry) (map_free_vars entry)
                (current_paths entry) s1 = Inr (True, s2)"
      and s': "s' = push_pending s2"
      by (auto simp add: RunTasks_step_def Let_def s1_def split: if_splits sum.splits)
    from Dispatch_below [OF ac d] obtain x where
      x: "lhs entry = Some x" and bf: "below_frame rank (rank x) s1 s2"
      by blast
    from bf pe obtain ts where
      ts: "pending_tasks s2 = ts" "list_all (\<lambda>t. ?w t \<le> 2 * rank x) ts"
      and stk: "map ?w (task_stack s2) = map ?w (entry\<lparr>children_expanded := True\<rparr> # rest)"
      by (auto simp add: below_frame_def s1_def)
    have we: "?w entry = 2 * rank x + 2"
      using nff False x by (simp add: task_weight_def)
    have we': "?w (entry\<lparr>children_expanded := True\<rparr>) = 2 * rank x + 1"
      using nff x by (simp add: task_weight_def)
    have new: "mset (map ?w (task_stack s'))
                 = mset (map ?w rest) + (mset (map ?w ts) + {#2 * rank x + 1#})"
      using s' ts(1) stk we' by (simp add: push_pending_def)
    have old: "mset (map ?w (task_stack s)) = mset (map ?w rest) + {#2 * rank x + 2#}"
      using st we by simp
    have "(mset (map ?w rest) + (mset (map ?w ts) + {#2 * rank x + 1#}),
           mset (map ?w rest) + {#2 * rank x + 2#}) \<in> mult {(m, n). m < n}"
    proof (rule one_step_implies_mult)
      show "{#2 * rank x + 2#} \<noteq> {#}"
        by simp
      show "\<forall>k\<in>#mset (map ?w ts) + {#2 * rank x + 1#}.
              \<exists>j\<in>#{#2 * rank x + 2#}. (k, j) \<in> {(m, n). m < n}"
        using ts(2) by (auto simp add: list_all_iff)
    qed
    with new old show ?thesis
      by simp
  qed
qed

lemma RunTasks_returns:
  assumes ac: "acyclic_graph rank E"
  shows "\<exists>res. RunTasks E cfg s = Some res"
proof -
  have "wf (inv_image (mult {(m::nat, n). m < n})
              (\<lambda>s. mset (map (task_weight rank) (task_stack s))))"
    by (intro wf_inv_image wf_mult wf_less)
  then show ?thesis
  proof (induct s rule: wf_induct_rule)
    case (less s)
    show ?case
    proof (cases "task_stack s")
      case Nil
      then show ?thesis
        by (subst RunTasks.simps) simp
    next
      case (Cons entry rest)
      show ?thesis
      proof (cases "RunTasks_step E cfg entry rest s")
        case (Inl r)
        with Cons show ?thesis
          by (subst RunTasks.simps) simp
      next
        case (Inr s')
        from RunTasks_step_decreases [OF ac Cons Inr]
        have "\<exists>res. RunTasks E cfg s' = Some res"
          by (intro less) simp
        with Cons Inr show ?thesis
          by (subst RunTasks.simps) simp
      qed
    qed
  qed
qed

lemma CheckResult_defined:
  "assert_mode cfg \<longrightarrow> path_tracing cfg \<Longrightarrow> CheckResult cfg v p s \<noteq> Inl Null_dereference"
  by (simp add: CheckResult_def Let_def IsPathTracingEnabled_impl_def)

text \<open>
  Claim C8, as amended. On a graph whose left side is acyclic (there is a rank that every
  registered reducer respects), and in a configuration that does not combine assert mode
  with a null mismatch pointer, the top-level \<open>Equal\<close> returns, with a boolean or a fatal
  error, for all operands, every value of \<open>map_free_vars\<close> and every state of the engine:
  the task loop is total there, and \<open>CheckResult\<close> never reads through the null pointer.
  (A reducer is a tree of calls: the reducers themselves are taken to return.)
\<close>

theorem Equal_returns_acyclic:
  assumes "acyclic_graph rank E" and "assert_mode cfg \<longrightarrow> path_tracing cfg"
  shows "(\<exists>res. Equal E cfg x y free_vars s0 = Some res)
         \<and> (\<forall>v p s. CheckResult cfg v p s \<noteq> Inl Null_dereference)"
proof
  show "\<exists>res. Equal E cfg x y free_vars s0 = Some res"
    using RunTasks_returns [OF assms(1)]
    by (simp add: Equal_def Let_def split: sum.splits prod.splits)
  show "\<forall>v p s. CheckResult cfg v p s \<noteq> Inl Null_dereference"
    using CheckResult_defined [OF assms(2)] by blast
qed

text \<open>
  The example graph \<open>wrap_env\<close> is acyclic, and the comparison of node 1 with node 3
  returns, in the configuration without assert mode.
\<close>

theorem Equal_returns_acyclic_witness:
  "acyclic_graph wrap_rank wrap_env
   \<and> \<not> assert_mode plain_config
   \<and> (\<exists>res. Equal wrap_env plain_config (AnyObject 1) (AnyObject 3) False new_Impl = Some res)"
  using Equal_returns_acyclic [of wrap_rank wrap_env plain_config "AnyObject 1" "AnyObject 3" False new_Impl]
  by (simp add: acyclic_graph_def wrap_env_def wrap_rank_def call_below_def ref_below_def
        plain_config_def)

lemma cyc_step:
  "RunTasks_step cyc_env plain_config (new_Task (Some 0) (Some 0) False None)
     (replicate n ((new_Task (Some 0) (Some 0) False None)
                      \<lparr>children_expanded := True, graph_equal := True\<rparr>))
     (cyc_state n) = Inr (cyc_state (Suc n))"
  by (simp add: engine_defs cyc_env_def cyc_state_def plain_config_def)

text \<open>
  On the graph \<open>cyc_env\<close> the task loop started on the node never returns: each iteration
  expands the task on top and pushes the same task again, since the node is entered into
  the remap maps only when its task completes.
\<close>

lemma cyc_never:
  assumes "RunTasks E cfg s = Some res"
  shows "\<not> (E = cyc_env \<and> cfg = plain_config \<and> (\<exists>n. s = cyc_state n))"
proof (rule RunTasks.raw_induct
    [where P = "\<lambda>E cfg s res. \<not> (E = cyc_env \<and> cfg = plain_config \<and> (\<exists>n. s = cyc_state n))",
     OF _ assms])
  fix RT :: "env \<Rightarrow> config \<Rightarrow> Impl \<Rightarrow> (error + bool \<times> Impl) option"
  fix E cfg s res
  assume IH: "\<And>E cfg s res. RT E cfg s = Some res
                \<Longrightarrow> \<not> (E = cyc_env \<and> cfg = plain_config \<and> (\<exists>n. s = cyc_state n))"
  assume eq: "(case task_stack s of [] \<Rightarrow> Some (Inr (True, s))
               | entry # rest \<Rightarrow>
                   (case RunTasks_step E cfg entry rest s of
                      Inl res \<Rightarrow> Some res | Inr s' \<Rightarrow> RT E cfg s')) = Some res"
  show "\<not> (E = cyc_env \<and> cfg = plain_config \<and> (\<exists>n. s = cyc_state n))"
  proof
    assume "E = cyc_env \<and> cfg = plain_config \<and> (\<exists>n. s = cyc_state n)"
    then obtain n where E: "E = cyc_env" and c: "cfg = plain_config" and s: "s = cyc_state n"
      by blast
    have stk: "task_stack (cyc_state n) = new_Task (Some 0) (Some 0) False None
        # replicate n ((new_Task (Some 0) (Some 0) False None)
                         \<lparr>children_expanded := True, graph_equal := True\<rparr>)"
      by (simp add: cyc_state_def)
    from eq have "RT cyc_env plain_config (cyc_state (Suc n)) = Some res"
      unfolding E c s stk by (simp add: cyc_step)
    from IH [OF this] show False
      by blast
  qed
qed

text \<open>
  Claim C8 as stated fails on this graph with a cycle: comparing the node whose \<open>next\<close>
  is itself with itself, \<open>Equal\<close> does not return, although the reducer marks the node
  as a graph node.
\<close>

theorem Equal_cycle_counterexample:
  "Equal cyc_env plain_config (AnyObject 0) (AnyObject 0) False new_Impl = None"
proof -
  have start: "Equal cyc_env plain_config (AnyObject 0) (AnyObject 0) False new_Impl
        = RunTasks cyc_env plain_config (cyc_state 0)"
    by (simp add: Equal_defs engine_defs cyc_env_def cyc_state_def plain_config_def)
  show ?thesis
  proof (cases "RunTasks cyc_env plain_config (cyc_state 0)")
    case None
    with start show ?thesis
      by simp
  next
    case (Some res)
    from cyc_never [OF this] show ?thesis
      by blast
  qed
qed

section \<open>The number of reducer invocations\<close>

lemma invocations_trans:
  "RunTasks_invocations E cfg s k s1 \<Longrightarrow> RunTasks_invocations E cfg s1 k' s2
   \<Longrightarrow> RunTasks_invocations E cfg s (k + k') s2"
proof (induction rule: RunTasks_invocations.induct)
  case (none s)
  then show ?case by simp
next
  case (step s entry rest s1 k s2')
  have "k + (if invokes_reducer E cfg entry s then 1 else 0) + k'
        = k + k' + (if invokes_reducer E cfg entry s then 1 else 0)"
    by simp
  then show ?case
    using RunTasks_invocations.step [OF step.hyps(1,2) step.IH [OF step.prems]]
    by (simp only:)
qed

lemma invocations_RunTasks:
  "RunTasks_invocations E cfg s k s' \<Longrightarrow> RunTasks E cfg s = RunTasks E cfg s'"
proof (induction rule: RunTasks_invocations.induct)
  case (none s)
  then show ?case by simp
next
  case (step s entry rest s1 k s2)
  have "RunTasks E cfg s = RunTasks E cfg s1"
    using step.hyps(1,2) by (subst RunTasks.simps) simp
  with step.IH show ?case
    by simp
qed

lemma chain_expand_leaf:
  "RunTasks_step (chain_env n) plain_config (chain_task n) rest (chain_state (chain_task n # rest))
   = Inr (chain_state ((chain_task n)\<lparr>children_expanded := True\<rparr> # rest))"
  by (simp add: engine_defs chain_env_def chain_task_def chain_state_def plain_config_def)

lemma chain_expand_inner:
  "i < n \<Longrightarrow>
   RunTasks_step (chain_env n) plain_config (chain_task i) rest (chain_state (chain_task i # rest))
   = Inr (chain_state (chain_task (Suc i) # chain_task (Suc i)
                        # (chain_task i)\<lparr>children_expanded := True\<rparr> # rest))"
  by (simp add: engine_defs chain_env_def chain_task_def chain_state_def plain_config_def)

lemma chain_complete:
  "RunTasks_step (chain_env n) plain_config ((chain_task i)\<lparr>children_expanded := True\<rparr>) rest
     (chain_state ((chain_task i)\<lparr>children_expanded := True\<rparr> # rest))
   = Inr (chain_state rest)"
  by (simp add: engine_defs chain_env_def chain_task_def chain_state_def plain_config_def)

lemma chain_invokes:
  "invokes_reducer (chain_env n) plain_config (chain_task i) (chain_state ts)"
  "\<not> invokes_reducer (chain_env n) plain_config ((chain_task i)\<lparr>children_expanded := True\<rparr>)
       (chain_state ts)"
  by (simp_all add: invokes_reducer_def chain_env_def chain_task_def chain_state_def
        plain_config_def new_Task_def IsPathTracingEnabled_impl_def)

lemma chain_completes:
  "RunTasks_invocations (chain_env n) plain_config
     (chain_state ((chain_task i)\<lparr>children_expanded := True\<rparr> # rest)) 0 (chain_state rest)"
proof -
  have "RunTasks_invocations (chain_env n) plain_config
          (chain_state ((chain_task i)\<lparr>children_expanded := True\<rparr> # rest))
          (0 + (if invokes_reducer (chain_env n) plain_config
                     ((chain_task i)\<lparr>children_expanded := True\<rparr>)
                     (chain_state ((chain_task i)\<lparr>children_expanded := True\<rparr> # rest))
                then 1 else 0))
          (chain_state rest)"
    by (rule RunTasks_invocations.step [OF _ chain_complete RunTasks_invocations.none])
       (simp add: chain_state_def)
  then show ?thesis
    by (simp add: chain_invokes)
qed

text \<open>
  The task of node \<open>i\<close> on top of the stack is worked off with \<open>2 ^ (n - i + 1) - 1\<close>
  invocations of reducers.
\<close>

lemma chain_run:
  "i \<le> n \<Longrightarrow>
   RunTasks_invocations (chain_env n) plain_config (chain_state (chain_task i # rest))
     (2 ^ (n - i + 1) - 1) (chain_state rest)"
proof (induction "n - i" arbitrary: i rest)
  case 0
  then have i: "i = n"
    by simp
  have "RunTasks_invocations (chain_env n) plain_config (chain_state (chain_task n # rest))
          (0 + (if invokes_reducer (chain_env n) plain_config (chain_task n)
                     (chain_state (chain_task n # rest)) then 1 else 0))
          (chain_state rest)"
    by (rule RunTasks_invocations.step [OF _ chain_expand_leaf chain_completes])
       (simp add: chain_state_def)
  then show ?case
    by (simp add: i chain_invokes)
next
  case (Suc d)
  then have lt: "i < n" and d: "d = n - Suc i" and le: "Suc i \<le> n"
    by simp_all
  let ?done = "(chain_task i)\<lparr>children_expanded := True\<rparr>"
  have a: "RunTasks_invocations (chain_env n) plain_config
             (chain_state (chain_task (Suc i) # chain_task (Suc i) # ?done # rest))
             (2 ^ (n - Suc i + 1) - 1) (chain_state (chain_task (Suc i) # ?done # rest))"
    by (rule Suc.hyps(1) [OF d le])
  have b: "RunTasks_invocations (chain_env n) plain_config
             (chain_state (chain_task (Suc i) # ?done # rest))
             (2 ^ (n - Suc i + 1) - 1) (chain_state (?done # rest))"
    by (rule Suc.hyps(1) [OF d le])
  from invocations_trans [OF a invocations_trans [OF b chain_completes]]
  have c: "RunTasks_invocations (chain_env n) plain_config
             (chain_state (chain_task (Suc i) # chain_task (Suc i) # ?done # rest))
             (2 ^ (n - Suc i + 1) - 1 + (2 ^ (n - Suc i + 1) - 1 + 0)) (chain_state rest)" .
  have "RunTasks_invocations (chain_env n) plain_config (chain_state (chain_task i # rest))
          ((2 ^ (n - Suc i + 1) - 1 + (2 ^ (n - Suc i + 1) - 1 + 0))
           + (if invokes_reducer (chain_env n) plain_config (chain_task i)
                     (chain_state (chain_task i # rest)) then 1 else 0))
          (chain_state rest)"
    by (rule RunTasks_invocations.step [OF _ chain_expand_inner [OF lt] c])
       (simp add: chain_state_def)
  moreover have "(2::nat) ^ (n - Suc i + 1) - 1 + (2 ^ (n - Suc i + 1) - 1 + 0) + 1
                 = 2 ^ (n - i + 1) - 1"
  proof -
    define m :: nat where "m = 2 ^ (n - Suc i + 1)"
    have "n - i + 1 = Suc (n - Suc i + 1)"
      using lt by simp
    then have "(2::nat) ^ (n - i + 1) = 2 * m"
      by (simp add: m_def)
    moreover have "1 \<le> m"
      by (simp add: m_def)
    ultimately show ?thesis
      unfolding m_def [symmetric] by simp
  qed
  ultimately show ?case
    by (simp add: chain_invokes)
qed

text \<open>
  No bound linear in the number of nodes holds on acyclic graphs: on the graph
  \<open>chain_env n\<close>, which is acyclic and has \<open>n + 1\<close> nodes, the comparison of node 0 with
  itself returns true after \<open>2 ^ (n + 1) - 1\<close> invocations of reducers.
\<close>

lemma chain_invocations:
  "acyclic_graph (\<lambda>x. n - x) (chain_env n)
   \<and> RunTasks_invocations (chain_env n) plain_config (chain_state [chain_task 0])
        (2 ^ (n + 1) - 1) (chain_state [])
   \<and> Equal (chain_env n) plain_config (AnyObject 0) (AnyObject 0) False new_Impl
       = Some (Inr (True, chain_state []))"
proof (intro conjI)
  show "acyclic_graph (\<lambda>x. n - x) (chain_env n)"
    by (auto simp add: acyclic_graph_def chain_env_def call_below_def ref_below_def)
  show run: "RunTasks_invocations (chain_env n) plain_config (chain_state [chain_task 0])
        (2 ^ (n + 1) - 1) (chain_state [])"
    using chain_run [of 0 n "[]"] by simp
  have "Equal (chain_env n) plain_config (AnyObject 0) (AnyObject 0) False new_Impl
        = RunTasks (chain_env n) plain_config (chain_state [chain_task 0])"
    by (simp add: Equal_defs engine_defs chain_env_def chain_state_def chain_task_def
          plain_config_def)
  also have "\<dots> = RunTasks (chain_env n) plain_config (chain_state [])"
    by (rule invocations_RunTasks [OF run])
  also have "\<dots> = Some (Inr (True, chain_state []))"
    by (subst RunTasks.simps) (simp add: chain_state_def)
  finally show "Equal (chain_env n) plain_config (AnyObject 0) (AnyObject 0) False new_Impl
       = Some (Inr (True, chain_state []))" .
qed

section \<open>Fail deferral does not change the result\<close>

lemma CheckResult_defer [simp]:
  "CheckResult (cfg\<lparr>defer_fails := d\<rparr>) v p s = CheckResult cfg v p s"
  by (simp add: CheckResult_def IsPathTracingEnabled_impl_def)

lemma CheckResult_False_not_True [simp]: "CheckResult cfg False p s \<noteq> Inr (True, s')"
  by (simp add: CheckResult_def Let_def)


lemma deferred_refl [simp]: "deferred r r"
  by (simp add: deferred_def)






lemma fails_run:
  "fails p \<Longrightarrow> run_reducer E cfg eq p s \<noteq> Inr (True, s')"
  by (induction p arbitrary: s) (auto split: sum.splits)


lemma has_force_fail_append [simp]:
  "has_force_fail (xs @ ys) \<longleftrightarrow> has_force_fail xs \<or> has_force_fail ys"
  by (simp add: has_force_fail_def)




lemma CheckResult_Inr_True: "CheckResult cfg r p s = Inr (True, s') \<longleftrightarrow> r \<and> s' = s"
  by (auto simp add: CheckResult_def Let_def)






lemma step_not_True: "RunTasks_step E cfg entry rest s \<noteq> Inl (Inr (True, s'))"
  by (auto simp add: RunTasks_step_def Let_def split: option.splits sum.splits)







lemma root_paths_defer [simp]: "root_paths (cfg\<lparr>defer_fails := d\<rparr>) = root_paths cfg"
  by (simp add: root_paths_def IsPathTracingEnabled_impl_def)




lemma Equal_child_deferred:
  "Equal child_env (mismatch_config\<lparr>defer_fails := True\<rparr>) (AnyObject 1) (AnyObject 2) False new_Impl
   = Some (Inr (False, deferred_final))"
  apply (simp add: Equal_defs engine_defs child_env_def mismatch_config_def)
  apply (subst RunTasks.simps, simp add: engine_defs)
  apply (subst RunTasks.simps,
         simp add: engine_defs deferred_final_def child_paths_def root_pair_def)
  done




text \<open>
  The runs must both return: with deferral the traversal goes on after a deferred
  mismatch. In \<open>abort_env\<close> the reducers are conjunctive; without deferral the comparison of
  the second children answers false and \<open>Equal\<close> returns false, with deferral the task of
  the first children is expanded before the force-fail task is run, and \<open>Equal\<close> ends in
  the fatal error of the type that has no reducer.
\<close>

lemma Equal_defer_fatal:
  "conjunctive_reducers abort_env
   \<and> (\<exists>s. Equal abort_env (mismatch_config\<lparr>defer_fails := False\<rparr>) (AnyObject 1) (AnyObject 2) False new_Impl
          = Some (Inr (False, s)))
   \<and> (\<exists>m. Equal abort_env (mismatch_config\<lparr>defer_fails := True\<rparr>) (AnyObject 1) (AnyObject 2) False new_Impl
          = Some (Inl (Fatal m)))"
proof (intro conjI)
  show "conjunctive_reducers abort_env"
    by (simp add: conjunctive_reducers_def abort_env_def object_call_def)
  show "\<exists>s. Equal abort_env (mismatch_config\<lparr>defer_fails := False\<rparr>) (AnyObject 1) (AnyObject 2) False new_Impl
          = Some (Inr (False, s))"
    apply (simp add: Equal_defs engine_defs abort_env_def mismatch_config_def)
    apply (subst RunTasks.simps, simp add: engine_defs)
    done
  show "\<exists>m. Equal abort_env (mismatch_config\<lparr>defer_fails := True\<rparr>) (AnyObject 1) (AnyObject 2) False new_Impl
          = Some (Inl (Fatal m))"
    apply (simp add: Equal_defs engine_defs abort_env_def mismatch_config_def)
    apply (subst RunTasks.simps, simp add: engine_defs)
    apply (subst RunTasks.simps, simp add: engine_defs)
    done
qed

section \<open>The first mismatch and the result of the check\<close>

lemma CheckResult_True_state: "CheckResult cfg r p s = Inr (True, s') \<Longrightarrow> s' = s"
  by (auto simp add: CheckResult_def Let_def split: if_splits)

lemma SEqualReduce_True_mismatch:
  "SEqualReduce E cfg a b free_vars p s = Inr (True, s') \<Longrightarrow> first_mismatch s' = first_mismatch s"
  unfolding SEqualReduce_def
  by (auto split: option.splits bool.splits if_splits dest!: CheckResult_True_state
        simp add: DeferFail_impl_def)

lemma ObjectAttrsEqual_True_mismatch:
  "ObjectAttrsEqual E cfg eq a b free_vars p lkey rkey s = Inr (True, s')
   \<Longrightarrow> first_mismatch s' = first_mismatch s"
  unfolding ObjectAttrsEqual_def Let_def
  by (auto split: option.splits sum.splits if_splits dest: SEqualReduce_True_mismatch)

lemma AnyEqual_True_mismatch:
  "AnyEqual_impl E cfg eq x y p s = Inr (True, s') \<Longrightarrow> first_mismatch s' = first_mismatch s"
  unfolding AnyEqual_impl_def Let_def
  by (auto split: if_splits dest: ObjectAttrsEqual_True_mismatch)

lemma do_call_mismatch:
  assumes "do_call E cfg eq c s = Inr (a, s1)"
  shows "first_mismatch s1 = first_mismatch s \<or> (comparison c \<and> a = A_bool False)
         \<or> records_mismatch c"
proof (cases c)
  case (Equal_object a1 b1 lkey rkey)
  with assms obtain v where
    "ObjectAttrsEqual E cfg eq a1 b1 (reducer_free_vars eq) None lkey rkey s = Inr (v, s1)"
    "a = A_bool v"
    by (auto simp add: do_call_def answer_bool_Inr)
  then show ?thesis
    using Equal_object by (cases v) (auto simp add: comparison_def dest: ObjectAttrsEqual_True_mismatch)
next
  case (Equal_object_paths a1 b1 q)
  with assms obtain v where
    "ObjectAttrsEqual E cfg eq a1 b1 (reducer_free_vars eq) (Some q) None None s = Inr (v, s1)"
    "a = A_bool v"
    by (auto simp add: do_call_def answer_bool_Inr)
  then show ?thesis
    using Equal_object_paths
    by (cases v) (auto simp add: comparison_def dest: ObjectAttrsEqual_True_mismatch)
next
  case (DefEqual a1 b1 lkey rkey)
  with assms obtain v where
    "ObjectAttrsEqual E cfg eq a1 b1 True None lkey rkey s = Inr (v, s1)"
    "a = A_bool v"
    by (auto simp add: do_call_def answer_bool_Inr)
  then show ?thesis
    using DefEqual by (cases v) (auto simp add: comparison_def dest: ObjectAttrsEqual_True_mismatch)
next
  case (Equal_value v paths lkey rkey)
  with assms show ?thesis
    by (auto simp add: do_call_def answer_bool_Inr CompareAttributeValues_def comparison_def
          split: if_splits option.splits)
next
  case (AnyEqual x y q)
  with assms obtain v where
    "AnyEqual_impl E cfg eq x y q s = Inr (v, s1)" "a = A_bool v"
    by (auto simp add: do_call_def answer_bool_Inr)
  then show ?thesis
    using AnyEqual by (cases v) (auto simp add: comparison_def dest: AnyEqual_True_mismatch)
next
  case (EnumAttrsEqual i j q)
  with assms show ?thesis
    by (auto simp add: do_call_def answer_bool_Inr EnumAttrsEqual_impl_def comparison_def
          split: if_splits option.splits)
next
  case (RecordMismatchPaths q)
  then show ?thesis
    by (simp add: records_mismatch_def)
next
  case MarkGraphNode
  with assms show ?thesis
    by (auto simp add: do_call_def MarkGraphNode_impl_def split: sum.splits list.splits if_splits)
next
  case (DeferFail q)
  with assms show ?thesis
    by (auto simp add: do_call_def DeferFail_impl_def)
qed (use assms in \<open>auto simp add: do_call_def split: option.splits\<close>)

lemma run_reducer_True_mismatch:
  "strict p \<Longrightarrow> run_reducer E cfg eq p s = Inr (True, s')
   \<Longrightarrow> first_mismatch s' = first_mismatch s"
proof (induction p arbitrary: s)
  case (Do c k)
  from Do.prems(2) obtain a s1 where
    c: "do_call E cfg eq c s = Inr (a, s1)"
    and r: "run_reducer E cfg eq (k a) s1 = Inr (True, s')"
    by (auto split: sum.splits)
  from Do.prems(1) have sk: "strict (k a)"
    and f1: "comparison c \<Longrightarrow> fails (k (A_bool False))"
    and f2: "records_mismatch c \<Longrightarrow> fails (k A_unit)"
    by simp_all
  have nf: "\<not> fails (k a)"
    using fails_run [of "k a" E cfg eq s1 s'] r by blast
  have unit: "a = A_unit" if "records_mismatch c"
    using that c by (cases c) (auto simp add: records_mismatch_def do_call_def split: option.splits)
  from do_call_mismatch [OF c] f1 f2 nf unit have "first_mismatch s1 = first_mismatch s"
    by auto
  with Do.IH [OF _ sk r] show ?case
    by simp
qed simp_all

lemma Dispatch_True_mismatch:
  assumes "strict_reducers E"
    and "DispatchSEqualReduce E cfg a b free_vars paths s = Inr (True, s')"
  shows "first_mismatch s' = first_mismatch s"
proof -
  have red: "first_mismatch s1 = first_mismatch s"
    if "ReflectionVTable_SEqualReduce E cfg x y eq s = Inr (True, s1)" for x y eq s1
  proof -
    from that obtain f where f: "fsequal_reduce E (type_index E x) = Some f"
      and r: "run_reducer E cfg eq (f x y (reducer_free_vars eq)) s = Inr (True, s1)"
      by (auto simp add: ReflectionVTable_SEqualReduce_def split: option.splits)
    from assms(1) f have "strict (f x y (reducer_free_vars eq))"
      by (simp add: strict_reducers_def)
    from run_reducer_True_mismatch [OF this r] show ?thesis .
  qed
  from assms(2) show ?thesis
    unfolding DispatchSEqualReduce_def
    by (auto split: option.splits if_splits sum.splits simp add: CheckResult_Inr_True dest: red)
qed

lemma step_mismatch:
  assumes "strict_reducers E" and "RunTasks_step E cfg entry rest s = Inr s'"
  shows "first_mismatch s' = first_mismatch s"
  using assms(2) unfolding RunTasks_step_def Let_def
  by (auto split: option.splits if_splits sum.splits
        simp add: complete_entry_def push_pending_def
        dest!: Dispatch_True_mismatch [OF assms(1)])

lemma RunTasks_True_mismatch_aux:
  assumes "RunTasks E cfg s = Some res"
  shows "\<forall>s'. strict_reducers E \<longrightarrow> res = Inr (True, s') \<longrightarrow> first_mismatch s' = first_mismatch s"
proof (rule RunTasks.raw_induct
    [where P = "\<lambda>E cfg s res. \<forall>s'. strict_reducers E \<longrightarrow> res = Inr (True, s')
                   \<longrightarrow> first_mismatch s' = first_mismatch s",
     OF _ assms])
  fix RT :: "env \<Rightarrow> config \<Rightarrow> Impl \<Rightarrow> (error + bool \<times> Impl) option"
  fix E cfg s res
  assume IH: "\<And>E cfg s res. RT E cfg s = Some res
     \<Longrightarrow> \<forall>s'. strict_reducers E \<longrightarrow> res = Inr (True, s') \<longrightarrow> first_mismatch s' = first_mismatch s"
  assume eq: "(case task_stack s of [] \<Rightarrow> Some (Inr (True, s))
               | entry # rest \<Rightarrow>
                   (case RunTasks_step E cfg entry rest s of
                      Inl res \<Rightarrow> Some res | Inr s' \<Rightarrow> RT E cfg s')) = Some res"
  show "\<forall>s'. strict_reducers E \<longrightarrow> res = Inr (True, s') \<longrightarrow> first_mismatch s' = first_mismatch s"
  proof (intro allI impI)
    fix s'
    assume sr: "strict_reducers E" and res: "res = Inr (True, s')"
    show "first_mismatch s' = first_mismatch s"
    proof (cases "task_stack s")
      case Nil
      with eq res show ?thesis
        by simp
    next
      case (Cons entry rest)
      show ?thesis
      proof (cases "RunTasks_step E cfg entry rest s")
        case (Inl r)
        with eq Cons res show ?thesis
          by (simp add: step_not_True)
      next
        case (Inr s2)
        with eq Cons have "RT E cfg s2 = Some res"
          by simp
        from IH [OF this] sr res have "first_mismatch s' = first_mismatch s2"
          by blast
        with step_mismatch [OF sr Inr] show ?thesis
          by simp
      qed
    qed
  qed
qed

text \<open>With strict reducers, a check that returns true has not touched the recorded mismatch.\<close>

lemma Equal_True_mismatch:
  assumes "strict_reducers E" and "Equal E cfg x y free_vars s0 = Some (Inr (True, s))"
  shows "first_mismatch s = first_mismatch s0"
proof -
  have clr: "first_mismatch (clear_Impl s0) = first_mismatch s0"
    by (simp add: clear_Impl_def)
  have run: "first_mismatch s = first_mismatch s2" if "RunTasks E cfg s2 = Some (Inr (True, s))" for s2
    using RunTasks_True_mismatch_aux [OF that] assms(1) by blast
  have st: "first_mismatch s2 = first_mismatch s1" if "start_tasks s1 = Inr s2" for s1 s2
    using that by (auto simp add: start_tasks_def split: if_splits)
  from assms(2) show ?thesis
    unfolding Equal_def Let_def
    by (auto split: if_splits sum.splits simp add: CheckResult_Inr_True clr
          dest!: SEqualReduce_True_mismatch run st)
qed

lemma traced_frame_refl [simp]: "traced_frame s s"
  by (simp add: traced_frame_def traced_def)

lemma traced_frame_trans: "traced_frame s s1 \<Longrightarrow> traced_frame s1 s2 \<Longrightarrow> traced_frame s s2"
  by (auto simp add: traced_frame_def traced_def)

lemma traced_frame_mismatch [simp]: "traced_frame s (s\<lparr>first_mismatch := p\<rparr>)"
  by (simp add: traced_frame_def traced_def)

lemma CheckResult_traced: "CheckResult cfg r p s = Inr (v, s') \<Longrightarrow> traced_frame s s'"
  by (auto simp add: CheckResult_def Let_def split: if_splits)

lemma CheckResult_False_mismatch:
  "path_tracing cfg \<Longrightarrow> CheckResult cfg r (Some p) s = Inr (False, s') \<Longrightarrow> first_mismatch s' \<noteq> None"
  by (auto simp add: CheckResult_def Let_def IsPathTracingEnabled_impl_def split: if_splits)

lemma CheckResult_value: "CheckResult cfg r p s = Inr (v, s') \<Longrightarrow> v = r"
  by (auto simp add: CheckResult_def Let_def split: if_splits)

lemma SEqualReduce_traced:
  "SEqualReduce E cfg a b free_vars (Some p) s = Inr (v, s') \<Longrightarrow> traced_frame s s'"
  unfolding SEqualReduce_def
  by (auto split: option.splits bool.splits if_splits
        simp add: CheckResult_def Let_def traced_frame_def traced_def DeferFail_impl_def
          ForceFail_Task_def new_Task_def)

lemma SEqualReduce_False_mismatch:
  "path_tracing cfg \<Longrightarrow> SEqualReduce E cfg a b free_vars (Some p) s = Inr (False, s')
   \<Longrightarrow> first_mismatch s' \<noteq> None"
  unfolding SEqualReduce_def
  by (auto split: option.splits bool.splits if_splits
        dest: CheckResult_False_mismatch)

lemma ObjectAttrsEqual_traced:
  assumes "tracing_data eq \<noteq> None"
    and "ObjectAttrsEqual E cfg eq a b free_vars p lkey rkey s = Inr (v, s')"
  shows "traced_frame s s'"
proof -
  from assms obtain np v1 s1 where
    r: "SEqualReduce E cfg a b free_vars (Some np) s = Inr (v1, s1)"
    and s': "s' = s1 \<or> s' = s1\<lparr>first_mismatch := Some np\<rparr>"
    by (auto simp add: ObjectAttrsEqual_def Let_def split: option.splits sum.splits if_splits)
  from SEqualReduce_traced [OF r] s' show ?thesis
    by (auto intro: traced_frame_trans)
qed

lemma AnyEqual_traced:
  assumes "tracing_data eq \<noteq> None"
    and "AnyEqual_impl E cfg eq x y p s = Inr (v, s')"
  shows "traced_frame s s'"
  using assms(2) unfolding AnyEqual_impl_def Let_def
  by (auto split: if_splits option.splits intro: ObjectAttrsEqual_traced [OF assms(1)])

lemma do_call_traced:
  assumes t: "tracing_data eq \<noteq> None" and c: "do_call E cfg eq c s = Inr (a, s')"
  shows "traced_frame s s'"
proof (cases c)
  case (Equal_object a1 b1 lkey rkey)
  with c show ?thesis
    by (auto simp add: do_call_def answer_bool_Inr intro: ObjectAttrsEqual_traced [OF t])
next
  case (Equal_object_paths a1 b1 q)
  with c show ?thesis
    by (auto simp add: do_call_def answer_bool_Inr intro: ObjectAttrsEqual_traced [OF t])
next
  case (DefEqual a1 b1 lkey rkey)
  with c show ?thesis
    by (auto simp add: do_call_def answer_bool_Inr intro: ObjectAttrsEqual_traced [OF t])
next
  case (Equal_value v paths lkey rkey)
  with c show ?thesis
    by (auto simp add: do_call_def answer_bool_Inr CompareAttributeValues_def
          GetPathsFromAttrAddressesAndStoreMismatch_def split: if_splits option.splits)
next
  case (AnyEqual x y q)
  with c show ?thesis
    by (auto simp add: do_call_def answer_bool_Inr intro: AnyEqual_traced [OF t])
next
  case (EnumAttrsEqual i j q)
  with c show ?thesis
    by (auto simp add: do_call_def answer_bool_Inr EnumAttrsEqual_impl_def
          GetPathsFromAttrAddressesAndStoreMismatch_def split: if_splits option.splits)
next
  case MarkGraphNode
  with c show ?thesis
    by (auto simp add: do_call_def MarkGraphNode_impl_def traced_frame_def traced_def
          split: sum.splits list.splits if_splits)
next
  case (DeferFail q)
  with c show ?thesis
    by (auto simp add: do_call_def DeferFail_impl_def traced_frame_def traced_def
          ForceFail_Task_def)
qed (use c in \<open>auto simp add: do_call_def split: option.splits if_splits\<close>)

lemma run_reducer_traced:
  "tracing_data eq \<noteq> None \<Longrightarrow> run_reducer E cfg eq p s = Inr (v, s') \<Longrightarrow> traced_frame s s'"
proof (induction p arbitrary: s)
  case (Do c k)
  from Do.prems(2) obtain a s1 where
    c: "do_call E cfg eq c s = Inr (a, s1)" and r: "run_reducer E cfg eq (k a) s1 = Inr (v, s')"
    by (auto split: sum.splits)
  from do_call_traced [OF Do.prems(1) c] Do.IH [OF _ Do.prems(1) r] show ?case
    by (auto intro: traced_frame_trans)
qed simp_all

lemma Dispatch_traced:
  assumes pt: "path_tracing cfg"
    and d: "DispatchSEqualReduce E cfg a b free_vars paths s = Inr (v, s')"
  shows "traced_frame s s'"
proof -
  have red: "traced_frame s s1"
    if "ReflectionVTable_SEqualReduce E cfg x y \<lparr>tracing_data = Some cur, reducer_free_vars = fv\<rparr> s
          = Inr (v1, s1)" for x y cur fv v1 s1
  proof -
    from that obtain f where
      "run_reducer E cfg \<lparr>tracing_data = Some cur, reducer_free_vars = fv\<rparr> (f x y fv) s
         = Inr (v1, s1)"
      by (auto simp add: ReflectionVTable_SEqualReduce_def split: option.splits)
    then show ?thesis
      by (rule run_reducer_traced [rotated]) simp
  qed
  have red_cr: "traced_frame s s'"
    if "ReflectionVTable_SEqualReduce E cfg x y \<lparr>tracing_data = Some cur, reducer_free_vars = fv\<rparr> s
          = Inr (v1, s1)"
      and "CheckResult cfg v1 paths s1 = Inr (v, s')" for x y cur fv v1 s1
    using red [OF that(1)] CheckResult_traced [OF that(2)] by (rule traced_frame_trans)
  from d pt show ?thesis
    unfolding DispatchSEqualReduce_def
    by (auto simp add: IsPathTracingEnabled_impl_def split: option.splits if_splits sum.splits
          intro: red_cr CheckResult_traced)
qed

lemma Dispatch_False_mismatch:
  assumes "path_tracing cfg"
    and "DispatchSEqualReduce E cfg a b free_vars (Some p) s = Inr (False, s')"
  shows "first_mismatch s' \<noteq> None"
  using assms(2) unfolding DispatchSEqualReduce_def
  by (auto split: option.splits if_splits sum.splits
        dest: CheckResult_False_mismatch [OF assms(1)])

lemma step_False_mismatch:
  assumes pt: "path_tracing cfg" and tr: "traced (entry # rest)"
    and step: "RunTasks_step E cfg entry rest s = Inl (Inr (False, s'))"
  shows "first_mismatch s' \<noteq> None"
proof -
  from tr obtain p where p: "current_paths entry = Some p"
    by (auto simp add: traced_def)
  show ?thesis
  proof (cases "force_fail entry")
    case True
    with step p show ?thesis
      by (auto simp add: RunTasks_step_def dest: CheckResult_False_mismatch [OF pt])
  next
    case False
    with step p show ?thesis
      by (auto simp add: RunTasks_step_def Let_def split: option.splits if_splits sum.splits
            dest: Dispatch_False_mismatch [OF pt])
  qed
qed

lemma step_traced:
  assumes pt: "path_tracing cfg" and st: "task_stack s = entry # rest"
    and tr: "traced (task_stack s)"
    and step: "RunTasks_step E cfg entry rest s = Inr s'"
  shows "traced (task_stack s')"
proof -
  from step have nff: "\<not> force_fail entry"
    by (auto simp add: RunTasks_step_def)
  show ?thesis
  proof (cases "children_expanded entry")
    case True
    with step nff have "task_stack s' = rest"
      by (auto simp add: RunTasks_step_def complete_entry_def split: option.splits if_splits)
    with tr st show ?thesis
      by (simp add: traced_def)
  next
    case False
    define s1 where "s1 = s\<lparr>task_stack := entry\<lparr>children_expanded := True\<rparr> # rest,
                            allow_push_to_stack := False\<rparr>"
    from step nff False obtain s2 where
      pe: "pending_tasks s = []"
      and d: "DispatchSEqualReduce E cfg (lhs entry) (rhs entry) (map_free_vars entry)
                (current_paths entry) s1 = Inr (True, s2)"
      and s': "s' = push_pending s2"
      by (auto simp add: RunTasks_step_def Let_def s1_def split: if_splits sum.splits)
    from Dispatch_traced [OF pt d] pe obtain ts where
      ts: "pending_tasks s2 = ts" "traced ts"
      and stk: "map current_paths (task_stack s2)
                = map current_paths (entry\<lparr>children_expanded := True\<rparr> # rest)"
      by (auto simp add: traced_frame_def s1_def)
    have "traced (task_stack s2)"
      using stk tr st
      by (simp add: traced_def list_all_iff)
         (metis (no_types, lifting) image_set list.set_map list.simps(15) image_insert
            insert_iff image_iff)
    with ts s' show ?thesis
      by (simp add: push_pending_def traced_def)
  qed
qed

lemma RunTasks_False_mismatch_aux:
  assumes "RunTasks E cfg s = Some res"
  shows "\<forall>s'. path_tracing cfg \<longrightarrow> traced (task_stack s) \<longrightarrow> res = Inr (False, s')
           \<longrightarrow> first_mismatch s' \<noteq> None"
proof (rule RunTasks.raw_induct
    [where P = "\<lambda>E cfg s res. \<forall>s'. path_tracing cfg \<longrightarrow> traced (task_stack s)
                   \<longrightarrow> res = Inr (False, s') \<longrightarrow> first_mismatch s' \<noteq> None",
     OF _ assms])
  fix RT :: "env \<Rightarrow> config \<Rightarrow> Impl \<Rightarrow> (error + bool \<times> Impl) option"
  fix E cfg s res
  assume IH: "\<And>E cfg s res. RT E cfg s = Some res
     \<Longrightarrow> \<forall>s'. path_tracing cfg \<longrightarrow> traced (task_stack s) \<longrightarrow> res = Inr (False, s')
           \<longrightarrow> first_mismatch s' \<noteq> None"
  assume eq: "(case task_stack s of [] \<Rightarrow> Some (Inr (True, s))
               | entry # rest \<Rightarrow>
                   (case RunTasks_step E cfg entry rest s of
                      Inl res \<Rightarrow> Some res | Inr s' \<Rightarrow> RT E cfg s')) = Some res"
  show "\<forall>s'. path_tracing cfg \<longrightarrow> traced (task_stack s) \<longrightarrow> res = Inr (False, s')
           \<longrightarrow> first_mismatch s' \<noteq> None"
  proof (intro allI impI)
    fix s'
    assume pt: "path_tracing cfg" and tr: "traced (task_stack s)"
      and res: "res = Inr (False, s')"
    show "first_mismatch s' \<noteq> None"
    proof (cases "task_stack s")
      case Nil
      with eq res show ?thesis
        by simp
    next
      case (Cons entry rest)
      show ?thesis
      proof (cases "RunTasks_step E cfg entry rest s")
        case (Inl r)
        with eq Cons res have "RunTasks_step E cfg entry rest s = Inl (Inr (False, s'))"
          by simp
        from step_False_mismatch [OF pt _ this] tr Cons show ?thesis
          by simp
      next
        case (Inr s2)
        with eq Cons have "RT E cfg s2 = Some res"
          by simp
        from IH [OF this] pt res step_traced [OF pt Cons tr Inr] show ?thesis
          by blast
      qed
    qed
  qed
qed

text \<open>Under path tracing, a check that returns false has recorded a mismatch.\<close>

lemma Equal_False_mismatch:
  assumes pt: "path_tracing cfg"
    and e: "Equal E cfg x y free_vars s0 = Some (Inr (False, s))"
  shows "first_mismatch s \<noteq> None"
proof -
  obtain p where p: "root_paths cfg = Some p"
    using pt by (simp add: root_paths_def IsPathTracingEnabled_impl_def)
  have run: "first_mismatch s \<noteq> None"
    if r: "SEqualReduce E cfg (Any_cast_ObjectRef x) (Any_cast_ObjectRef y) free_vars (Some p)
             (clear_Impl s0) = Inr (True, s1)"
      and st: "start_tasks s1 = Inr s2" and rt: "RunTasks E cfg s2 = Some (Inr (False, s))"
    for s1 s2
  proof -
    from SEqualReduce_traced [OF r] have "traced (pending_tasks s1)" "task_stack s1 = []"
      by (auto simp add: traced_frame_def clear_Impl_def)
    with st have "traced (task_stack s2)"
      by (cases "pending_tasks s1")
         (auto simp add: start_tasks_def traced_def split: if_splits)
    with RunTasks_False_mismatch_aux [OF rt] pt show ?thesis
      by blast
  qed
  from e show ?thesis
    unfolding Equal_def Let_def p
    by (auto split: if_splits sum.splits
          dest: CheckResult_False_mismatch [OF pt] SEqualReduce_False_mismatch [OF pt] run)
qed

text \<open>
  Claim C10, as amended. With strict reducers, for all operands and every value of
  \<open>map_free_vars\<close>: when the check that \<open>node.GetFirstStructuralMismatch\<close> runs (tracing
  and deferral on, no assert mode, fresh engine) returns a boolean, the callable returns
  the recorded first mismatch, and this is a defined path pair exactly when the check
  returned false and \<open>None\<close> exactly when it returned true. Conversely, a value returned
  by the callable is the mismatch recorded by a check that returned a boolean.
\<close>

theorem GetFirstStructuralMismatch_iff:
  assumes "strict_reducers E"
  shows "(Equal E mismatch_config x y free_vars new_Impl = Some (Inr (v, s)) \<longrightarrow>
            node_GetFirstStructuralMismatch E x y free_vars = Some (Inr (first_mismatch s))
            \<and> (v \<longleftrightarrow> first_mismatch s = None))
       \<and> (node_GetFirstStructuralMismatch E x y free_vars = Some (Inr r) \<longrightarrow>
            (\<exists>s'. Equal E mismatch_config x y free_vars new_Impl = Some (Inr (r = None, s'))
                  \<and> first_mismatch s' = r))"
proof (intro conjI impI)
  assume e: "Equal E mismatch_config x y free_vars new_Impl = Some (Inr (v, s))"
  have pt: "path_tracing mismatch_config"
    by (simp add: mismatch_config_def)
  show iff: "v \<longleftrightarrow> first_mismatch s = None"
  proof (cases v)
    case True
    with e Equal_True_mismatch [OF assms, of mismatch_config x y free_vars new_Impl s]
    show ?thesis
      by (simp add: new_Impl_def)
  next
    case False
    with e Equal_False_mismatch [OF pt, of E x y free_vars new_Impl s] show ?thesis
      by simp
  qed
  from e iff show "node_GetFirstStructuralMismatch E x y free_vars = Some (Inr (first_mismatch s))"
    by (simp add: node_GetFirstStructuralMismatch_def mismatch_config_def)
next
  assume "node_GetFirstStructuralMismatch E x y free_vars = Some (Inr r)"
  then show "\<exists>s'. Equal E mismatch_config x y free_vars new_Impl = Some (Inr (r = None, s'))
                  \<and> first_mismatch s' = r"
    by (auto simp add: node_GetFirstStructuralMismatch_def mismatch_config_def
          split: option.splits sum.splits if_splits)
qed

lemma Equal_disj:
  "Equal disj_env mismatch_config (AnyObject 1) (AnyObject 2) False new_Impl
   = Some (Inr (True, new_Impl\<lparr>first_mismatch := Some \<lparr>lhs_path = [Attr ''a''], rhs_path = [Attr ''a'']\<rparr>\<rparr>))"
  apply (simp add: Equal_defs engine_defs disj_env_def mismatch_config_def)
  apply (subst RunTasks.simps, simp add: engine_defs CompareAttributeValues_def
           GetPathsFromAttrAddressesAndStoreMismatch_def)
  apply (subst RunTasks.simps, simp add: engine_defs)
  apply (subst RunTasks.simps, simp add: engine_defs)
  done

text \<open>
  Claim C10 as stated fails. The reducer of \<open>disj_env\<close> goes on after a comparison of
  leaves that answered false, and returns true: the check returns true with a mismatch
  recorded, and the callable yields neither \<open>None\<close> nor a path pair but aborts on its own
  check.
\<close>

theorem GetFirstStructuralMismatch_counterexample:
  "(\<exists>s. Equal disj_env mismatch_config (AnyObject 1) (AnyObject 2) False new_Impl
          = Some (Inr (True, s)) \<and> first_mismatch s \<noteq> None)
   \<and> node_GetFirstStructuralMismatch disj_env (AnyObject 1) (AnyObject 2) False
       = Some (Inl (Check_failed ''equal == !first_mismatch.defined()'' []))"
  using Equal_disj
  by (simp add: node_GetFirstStructuralMismatch_def mismatch_config_def)

text \<open>
  Two examples: nodes whose children differ in type, where the check returns false and the
  callable the paths of the children; and the comparison of node 1 with node 3, where the
  check returns true and the callable \<open>None\<close>.
\<close>

theorem GetFirstStructuralMismatch_iff_witness:
  "strict_reducers child_env
   \<and> Equal child_env mismatch_config (AnyObject 1) (AnyObject 2) False new_Impl
       = Some (Inr (False, deferred_final))
   \<and> node_GetFirstStructuralMismatch child_env (AnyObject 1) (AnyObject 2) False
       = Some (Inr (Some child_paths))
   \<and> strict_reducers wrap_env
   \<and> Equal wrap_env mismatch_config (AnyObject 1) (AnyObject 3) False new_Impl
       = Some (Inr (True, wrap_final))
   \<and> node_GetFirstStructuralMismatch wrap_env (AnyObject 1) (AnyObject 3) False = Some (Inr None)"
proof -
  have c: "strict_reducers child_env"
    by (simp add: strict_reducers_def child_env_def comparison_def records_mismatch_def)
  have w: "strict_reducers wrap_env"
    by (simp add: strict_reducers_def wrap_env_def comparison_def records_mismatch_def)
  have m: "mismatch_config\<lparr>defer_fails := True\<rparr> = mismatch_config"
    by (simp add: mismatch_config_def)
  have e: "Equal child_env mismatch_config (AnyObject 1) (AnyObject 2) False new_Impl
       = Some (Inr (False, deferred_final))"
    using Equal_child_deferred by (simp add: m)
  have g: "node_GetFirstStructuralMismatch child_env (AnyObject 1) (AnyObject 2) False
       = Some (Inr (Some child_paths))"
    using GetFirstStructuralMismatch_iff [OF c, THEN conjunct1, rule_format, OF e]
    by (simp add: deferred_final_def)
  have h: "node_GetFirstStructuralMismatch wrap_env (AnyObject 1) (AnyObject 3) False = Some (Inr None)"
    using GetFirstStructuralMismatch_iff [OF w, THEN conjunct1, rule_format, OF Equal_wrap_mismatch]
    by (simp add: wrap_final_def)
  show ?thesis
    using c w e g h Equal_wrap_mismatch by simp
qed

end
